theory Spec2Isabelle
  imports Complex_Main "HOL-Library.Sublist"
begin

section \<open>Strings and values of the Python runtime\<close>

text \<open>
  A Python \<^verbatim>\<open>str\<close> is a sequence of Unicode code points, so a string is a list of
  natural numbers here and \<open>length\<close> counts code points, as \<^verbatim>\<open>len\<close> does.
  ASCII text is written with \<open>asc\<close>; the accented letters of the labels are given by
  their code points (all of them precomposed in the source file).
\<close>

type_synonym ustr = "nat list"

definition asc :: "string \<Rightarrow> ustr" where
  "asc s = map of_char s"

text \<open>
  The values the code handles: what \<^verbatim>\<open>json.loads\<close> can return and what the
  extractor builds. A \<^verbatim>\<open>dict\<close> keeps insertion order, so it is an association
  list with distinct keys. Numbers are abstracted to reals (\<^verbatim>\<open>int\<close> and finite
  \<^verbatim>\<open>float\<close> alike).
\<close>

datatype pyval =
    PNone
  | PBool bool
  | PNum real
  | PStr ustr
  | PList "pyval list"
  | PDict "(ustr \<times> pyval) list"

type_synonym pydict = "(ustr \<times> pyval) list"

text \<open>
  Exceptions below \<^verbatim>\<open>Exception\<close>, with the text \<^verbatim>\<open>str(e)\<close> gives.
  \<open>Failure\<close> is an exception raised by a collaborator (browser, network).
\<close>

datatype exn =
    ValueError ustr
  | KeyError ustr
  | TypeError ustr
  | AttributeError ustr
  | Failure ustr

fun str_of_exn :: "exn \<Rightarrow> ustr" where
  "str_of_exn (ValueError m) = m"
| "str_of_exn (KeyError k) = asc [CHR 0x27] @ k @ asc [CHR 0x27]"
| "str_of_exn (TypeError m) = m"
| "str_of_exn (AttributeError m) = m"
| "str_of_exn (Failure m) = m"

text \<open>Truth value of an object in a condition (\<^verbatim>\<open>if x:\<close>).\<close>

fun truthy :: "pyval \<Rightarrow> bool" where
  "truthy PNone = False"
| "truthy (PBool b) = b"
| "truthy (PNum r) = (r \<noteq> 0)"
| "truthy (PStr s) = (s \<noteq> [])"
| "truthy (PList xs) = (xs \<noteq> [])"
| "truthy (PDict kvs) = (kvs \<noteq> [])"

subsection \<open>String operations\<close>

text \<open>\<^verbatim>\<open>str.isspace\<close> for one character: the whitespace code points of CPython.\<close>

definition py_isspace :: "nat \<Rightarrow> bool" where
  "py_isspace c =
     ((9 \<le> c \<and> c \<le> 13) \<or> (28 \<le> c \<and> c \<le> 32) \<or> c = 133 \<or> c = 160 \<or> c = 5760
      \<or> (8192 \<le> c \<and> c \<le> 8202) \<or> c = 8232 \<or> c = 8233 \<or> c = 8239 \<or> c = 8287
      \<or> c = 12288)"

text \<open>\<^verbatim>\<open>s.strip()\<close>\<close>

definition strip :: "ustr \<Rightarrow> ustr" where
  "strip s = rev (dropWhile py_isspace (rev (dropWhile py_isspace s)))"

text \<open>\<^verbatim>\<open>s.split('\n')\<close>: always at least one piece.\<close>

fun split_nl :: "ustr \<Rightarrow> ustr list" where
  "split_nl [] = [[]]"
| "split_nl (c # cs) =
     (if c = 10 then [] # split_nl cs
      else (case split_nl cs of [] \<Rightarrow> [[c]] | p # ps \<Rightarrow> (c # p) # ps))"

text \<open>\<^verbatim>\<open>s.startswith(p)\<close> and \<^verbatim>\<open>p in s\<close> (substring test).\<close>

fun starts_with :: "ustr \<Rightarrow> ustr \<Rightarrow> bool" where
  "starts_with [] s = True"
| "starts_with (p # ps) [] = False"
| "starts_with (p # ps) (c # cs) = (p = c \<and> starts_with ps cs)"

fun py_in :: "ustr \<Rightarrow> ustr \<Rightarrow> bool" where
  "py_in p [] = (p = [])"
| "py_in p (c # cs) = (starts_with p (c # cs) \<or> py_in p cs)"

text \<open>
  \<^verbatim>\<open>s.split(sep, 1)\<close> for a non-empty separator: the text before and after the
  leftmost occurrence, or the string alone when there is none.
\<close>

fun split_at_first :: "ustr \<Rightarrow> ustr \<Rightarrow> (ustr \<times> ustr) option" where
  "split_at_first sep [] = (if sep = [] then Some ([], []) else None)"
| "split_at_first sep (c # cs) =
     (if starts_with sep (c # cs) then Some ([], drop (length sep) (c # cs))
      else (case split_at_first sep cs of
              None \<Rightarrow> None
            | Some (a, b) \<Rightarrow> Some (c # a, b)))"

definition split1 :: "ustr \<Rightarrow> ustr \<Rightarrow> ustr list" where
  "split1 sep s = (case split_at_first sep s of None \<Rightarrow> [s] | Some (a, b) \<Rightarrow> [a, b])"

text \<open>\<^verbatim>\<open>a, b = xs\<close>: unpacking raises unless there are exactly two values.\<close>

fun unpack2 :: "ustr list \<Rightarrow> exn + (ustr \<times> ustr)" where
  "unpack2 [a, b] = Inr (a, b)"
| "unpack2 xs = Inl (ValueError (asc ''wrong number of values to unpack''))"

subsection \<open>Dictionaries\<close>

text \<open>\<^verbatim>\<open>d[k]\<close> raises \<^verbatim>\<open>KeyError\<close> on a missing key; \<^verbatim>\<open>d[k] = v\<close> replaces
  the value in place or appends a new key.\<close>

definition getitem :: "pydict \<Rightarrow> ustr \<Rightarrow> exn + pyval" where
  "getitem d k = (case map_of d k of None \<Rightarrow> Inl (KeyError k) | Some v \<Rightarrow> Inr v)"

fun setitem :: "pydict \<Rightarrow> ustr \<Rightarrow> pyval \<Rightarrow> pydict" where
  "setitem [] k v = [(k, v)]"
| "setitem ((k', v') # d) k v = (if k' = k then (k, v) # d else (k', v') # setitem d k v)"

text \<open>\<^verbatim>\<open>data[section][field]\<close> and \<^verbatim>\<open>data[section][field] = v\<close> on a dict of dicts.
  Subscripting a value that is not a dict raises \<^verbatim>\<open>TypeError\<close>.\<close>

definition as_dict :: "pyval \<Rightarrow> exn + pydict" where
  "as_dict v = (case v of PDict d \<Rightarrow> Inr d | _ \<Rightarrow> Inl (TypeError (asc ''not subscriptable'')))"

definition get2 :: "pydict \<Rightarrow> ustr \<Rightarrow> ustr \<Rightarrow> exn + pyval" where
  "get2 data section field =
     (case getitem data section of
        Inl e \<Rightarrow> Inl e
      | Inr sv \<Rightarrow> (case as_dict sv of Inl e \<Rightarrow> Inl e | Inr sd \<Rightarrow> getitem sd field))"

definition set2 :: "pydict \<Rightarrow> ustr \<Rightarrow> ustr \<Rightarrow> pyval \<Rightarrow> exn + pydict" where
  "set2 data section field v =
     (case getitem data section of
        Inl e \<Rightarrow> Inl e
      | Inr sv \<Rightarrow> (case as_dict sv of
                    Inl e \<Rightarrow> Inl e
                  | Inr sd \<Rightarrow> Inr (setitem data section (PDict (setitem sd field v)))))"

text \<open>\<^verbatim>\<open>d.get(k, default)\<close>; only a dict has the method.\<close>

definition py_get :: "pyval \<Rightarrow> ustr \<Rightarrow> pyval \<Rightarrow> exn + pyval" where
  "py_get v k dflt =
     (case v of
        PDict d \<Rightarrow> (case map_of d k of None \<Rightarrow> Inr dflt | Some x \<Rightarrow> Inr x)
      | _ \<Rightarrow> Inl (AttributeError (asc ''object has no attribute get'')))"

section \<open>CNPJDataExtractor\<close>

subsection \<open>Labels\<close>

definition L_NUMERO_DE_INSCRICAO :: ustr where
  "L_NUMERO_DE_INSCRICAO = asc ''N'' @ [218] @ asc ''MERO DE INSCRI'' @ [199, 195] @ asc ''O''"

definition L_DATA_DE_ABERTURA :: ustr where
  "L_DATA_DE_ABERTURA = asc ''DATA DE ABERTURA''"

definition L_NOME_EMPRESARIAL :: ustr where
  "L_NOME_EMPRESARIAL = asc ''NOME EMPRESARIAL''"

definition L_TITULO :: ustr where
  "L_TITULO = asc ''T'' @ [205] @ asc ''TULO DO ESTABELECIMENTO (NOME DE FANTASIA)''"

definition L_PORTE :: ustr where
  "L_PORTE = asc ''PORTE''"

definition L_LOGRADOURO :: ustr where
  "L_LOGRADOURO = asc ''LOGRADOURO''"

definition L_NUMERO :: ustr where
  "L_NUMERO = asc ''N'' @ [218] @ asc ''MERO''"

definition L_COMPLEMENTO :: ustr where
  "L_COMPLEMENTO = asc ''COMPLEMENTO''"

definition L_CEP :: ustr where
  "L_CEP = asc ''CEP''"

definition L_BAIRRO :: ustr where
  "L_BAIRRO = asc ''BAIRRO/DISTRITO''"

definition L_MUNICIPIO :: ustr where
  "L_MUNICIPIO = asc ''MUNIC'' @ [205] @ asc ''PIO''"

definition L_UF :: ustr where
  "L_UF = asc ''UF''"

definition L_TELEFONE :: ustr where
  "L_TELEFONE = asc ''TELEFONE''"

definition L_SITUACAO_CADASTRAL :: ustr where
  "L_SITUACAO_CADASTRAL = asc ''SITUA'' @ [199, 195] @ asc ''O CADASTRAL''"

definition L_DATA_DA_SITUACAO :: ustr where
  "L_DATA_DA_SITUACAO = asc ''DATA DA SITUA'' @ [199, 195] @ asc ''O CADASTRAL''"

definition L_MATRIZ :: ustr where
  "L_MATRIZ = asc ''MATRIZ''"

definition L_FILIAL :: ustr where
  "L_FILIAL = asc ''FILIAL''"

definition H_NATUREZA :: ustr where
  "H_NATUREZA = asc ''C'' @ [211] @ asc ''DIGO E DESCRI'' @ [199, 195]
     @ asc ''O DA NATUREZA JUR'' @ [205] @ asc ''DICA''"

definition H_PRINCIPAL :: ustr where
  "H_PRINCIPAL = asc ''C'' @ [211] @ asc ''DIGO E DESCRI'' @ [199, 195]
     @ asc ''O DA ATIVIDADE ECON'' @ [212] @ asc ''MICA PRINCIPAL''"

definition H_SECUNDARIAS :: ustr where
  "H_SECUNDARIAS = asc ''C'' @ [211] @ asc ''DIGO E DESCRI'' @ [199, 195]
     @ asc ''O DAS ATIVIDADES ECON'' @ [212] @ asc ''MICAS SECUND'' @ [193] @ asc ''RIAS''"

definition STOP_NATUREZA :: ustr where
  "STOP_NATUREZA = asc ''NATUREZA JUR'' @ [205] @ asc ''DICA''"

definition EMITIDO :: ustr where
  "EMITIDO = asc ''Emitido no dia''"

definition SEP :: ustr where
  "SEP = asc '' - ''"


subsection \<open>The record under construction\<close>

definition code_desc :: "ustr \<Rightarrow> ustr \<Rightarrow> pyval" where
  "code_desc codigo desc = PDict [(asc ''codigo'', PStr codigo), (asc ''descricao'', PStr desc)]"

text \<open>The dict \<^verbatim>\<open>data\<close> as initialised; \<open>now\<close> is what
  \<^verbatim>\<open>time.strftime("%Y-%m-%d %H:%M:%S")\<close> returns at the call.\<close>

definition initial_data :: "ustr \<Rightarrow> pydict" where
  "initial_data now =
     [(asc ''cnpj'', PDict [(asc ''numero'', PStr []), (asc ''tipo'', PStr []),
                            (asc ''data_abertura'', PStr [])]),
      (asc ''empresa'', PDict [(asc ''razao_social'', PStr []), (asc ''nome_fantasia'', PStr []),
                               (asc ''porte'', PStr []),
                               (asc ''natureza_juridica'', code_desc [] [])]),
      (asc ''atividades'', PDict [(asc ''principal'', code_desc [] []),
                                  (asc ''secundarias'', PList [])]),
      (asc ''endereco'', PDict [(asc ''logradouro'', PStr []), (asc ''numero'', PStr []),
                                (asc ''complemento'', PStr []), (asc ''cep'', PStr []),
                                (asc ''bairro'', PStr []), (asc ''municipio'', PStr []),
                                (asc ''uf'', PStr [])]),
      (asc ''contato'', PDict [(asc ''email'', PStr []), (asc ''telefone'', PStr [])]),
      (asc ''situacao'', PDict [(asc ''cadastral'', PStr []), (asc ''data_situacao'', PStr []),
                                (asc ''motivo'', PStr []), (asc ''situacao_especial'', PStr []),
                                (asc ''data_situacao_especial'', PStr [])]),
      (asc ''comprovante'', PDict [(asc ''data_emissao'', PStr []),
                                   (asc ''hora_emissao'', PStr [])]),
      (asc ''metadados'', PDict [(asc ''timestamp'', PStr now), (asc ''sucesso'', PBool True)])]"

text \<open>\<^verbatim>\<open>field_map\<close>: label, section, field. The keys are distinct, so the first
  entry found is the only one.\<close>

definition field_map :: "(ustr \<times> ustr \<times> ustr) list" where
  "field_map =
     [(L_NUMERO_DE_INSCRICAO, asc ''cnpj'', asc ''numero''),
      (L_DATA_DE_ABERTURA, asc ''cnpj'', asc ''data_abertura''),
      (L_NOME_EMPRESARIAL, asc ''empresa'', asc ''razao_social''),
      (L_TITULO, asc ''empresa'', asc ''nome_fantasia''),
      (L_PORTE, asc ''empresa'', asc ''porte''),
      (L_LOGRADOURO, asc ''endereco'', asc ''logradouro''),
      (L_NUMERO, asc ''endereco'', asc ''numero''),
      (L_COMPLEMENTO, asc ''endereco'', asc ''complemento''),
      (L_CEP, asc ''endereco'', asc ''cep''),
      (L_BAIRRO, asc ''endereco'', asc ''bairro''),
      (L_MUNICIPIO, asc ''endereco'', asc ''municipio''),
      (L_UF, asc ''endereco'', asc ''uf''),
      (L_TELEFONE, asc ''contato'', asc ''telefone''),
      (L_SITUACAO_CADASTRAL, asc ''situacao'', asc ''cadastral''),
      (L_DATA_DA_SITUACAO, asc ''situacao'', asc ''data_situacao'')]"

subsection \<open>The date and time pattern\<close>

text \<open>
  The pattern \<^verbatim>\<open>(\d{2}/\d{2}/\d{4}) as (\d{2}:\d{2}:\d{2})\<close> (the first letter of
  the middle word is U+00E0) has a fixed length of 22 characters, so
  \<^verbatim>\<open>re.search\<close> is the leftmost position where the 22 characters match. For a
  \<^verbatim>\<open>str\<close> pattern \<^verbatim>\<open>\d\<close> is any Unicode decimal digit; that table
  belongs to the runtime and is the parameter \<open>isd\<close>.
\<close>

datatype rx = Digit | Lit nat

definition emitido_pattern :: "rx list" where
  "emitido_pattern =
     [Digit, Digit, Lit 47, Digit, Digit, Lit 47, Digit, Digit, Digit, Digit,
      Lit 32, Lit 224, Lit 115, Lit 32,
      Digit, Digit, Lit 58, Digit, Digit, Lit 58, Digit, Digit]"

fun rx_match :: "(nat \<Rightarrow> bool) \<Rightarrow> rx list \<Rightarrow> ustr \<Rightarrow> bool" where
  "rx_match isd [] s = True"
| "rx_match isd (r # rs) [] = False"
| "rx_match isd (r # rs) (c # cs) =
     ((case r of Digit \<Rightarrow> isd c | Lit k \<Rightarrow> c = k) \<and> rx_match isd rs cs)"

fun re_search :: "(nat \<Rightarrow> bool) \<Rightarrow> ustr \<Rightarrow> (ustr \<times> ustr) option" where
  "re_search isd [] = None"
| "re_search isd (c # cs) =
     (if rx_match isd emitido_pattern (c # cs)
      then Some (take 10 (c # cs), take 8 (drop 14 (c # cs)))
      else re_search isd cs)"

subsection \<open>extract\_from\_text\<close>

text \<open>\<^verbatim>\<open>[line.strip() for line in text.split('\n') if line.strip()]\<close>\<close>

definition lines_of :: "ustr \<Rightarrow> ustr list" where
  "lines_of text = filter (\<lambda>l. l \<noteq> []) (map strip (split_nl text))"

text \<open>\<^verbatim>\<open>data["atividades"]["secundarias"].append({...})\<close>\<close>

definition append_secundaria :: "pydict \<Rightarrow> ustr \<Rightarrow> ustr \<Rightarrow> exn + pydict" where
  "append_secundaria data codigo desc =
     (case get2 data (asc ''atividades'') (asc ''secundarias'') of
        Inl e \<Rightarrow> Inl e
      | Inr v \<Rightarrow>
          (case v of
             PList xs \<Rightarrow>
               set2 data (asc ''atividades'') (asc ''secundarias'')
                 (PList (xs @ [code_desc codigo desc]))
           | _ \<Rightarrow> Inl (AttributeError (asc ''object has no attribute append''))))"

text \<open>The inner \<^verbatim>\<open>while\<close> loop over the lines after the header.\<close>

function secundarias_loop :: "ustr list \<Rightarrow> nat \<Rightarrow> pydict \<Rightarrow> exn + pydict" where
  "secundarias_loop lines j data =
     (if j < length lines \<and> py_in SEP (lines ! j) then
        (if py_in STOP_NATUREZA (lines ! j) \<or> py_in L_LOGRADOURO (lines ! j) then Inr data
         else (case unpack2 (split1 SEP (lines ! j)) of
                 Inl e \<Rightarrow> Inl e
               | Inr (codigo, desc) \<Rightarrow>
                   (case append_secundaria data codigo desc of
                      Inl e \<Rightarrow> Inl e
                    | Inr data' \<Rightarrow> secundarias_loop lines (j + 1) data')))
      else Inr data)"
  by pat_completeness auto
termination
  by (relation "measure (\<lambda>(lines, j, data). length lines - j)") auto

declare secundarias_loop.simps [simp del]

text \<open>\<^verbatim>\<open>codigo, desc = next_line.split(" - ", 1)\<close> followed by the assignment of the
  pair to \<^verbatim>\<open>data[section][field]\<close>.\<close>

definition set_code_desc :: "pydict \<Rightarrow> ustr \<Rightarrow> ustr \<Rightarrow> ustr \<Rightarrow> exn + pydict" where
  "set_code_desc data section field next_line =
     (case unpack2 (split1 SEP next_line) of
        Inl e \<Rightarrow> Inl e
      | Inr (codigo, desc) \<Rightarrow> set2 data section field (code_desc codigo desc))"

text \<open>\<^verbatim>\<open>lines[i + 1] if i + 1 < len(lines) else ""\<close>\<close>

definition next_line_of :: "ustr list \<Rightarrow> nat \<Rightarrow> ustr" where
  "next_line_of lines i = (if i + 1 < length lines then lines ! (i + 1) else [])"

text \<open>One iteration of \<^verbatim>\<open>for i, line in enumerate(lines)\<close>.\<close>

definition step :: "(nat \<Rightarrow> bool) \<Rightarrow> ustr list \<Rightarrow> nat \<Rightarrow> ustr \<Rightarrow> pydict \<Rightarrow> exn + pydict" where
  "step isd lines i line data =
     (let next_line = next_line_of lines i in
      case map_of field_map line of
        Some (section, field) \<Rightarrow>
          if next_line \<noteq> [] \<and> map_of field_map next_line = None then
            (if section = asc ''endereco'' \<and> field = asc ''numero'' then
               (case get2 data (asc ''endereco'') (asc ''numero'') of
                  Inl e \<Rightarrow> Inl e
                | Inr cur \<Rightarrow>
                    if truthy cur then Inr data
                    else set2 data section field (PStr next_line))
             else set2 data section field (PStr next_line))
          else Inr data
      | None \<Rightarrow>
          if line = L_MATRIZ then set2 data (asc ''cnpj'') (asc ''tipo'') (PStr L_MATRIZ)
          else if line = L_FILIAL then set2 data (asc ''cnpj'') (asc ''tipo'') (PStr L_FILIAL)
          else if py_in H_NATUREZA line \<and> next_line \<noteq> [] then
            (if py_in SEP next_line
             then set_code_desc data (asc ''empresa'') (asc ''natureza_juridica'') next_line
             else Inr data)
          else if py_in H_PRINCIPAL line \<and> next_line \<noteq> [] then
            (if py_in SEP next_line
             then set_code_desc data (asc ''atividades'') (asc ''principal'') next_line
             else Inr data)
          else if py_in H_SECUNDARIAS line then secundarias_loop lines (i + 1) data
          else if py_in EMITIDO line then
            (case re_search isd line of
               None \<Rightarrow> Inr data
             | Some (g1, g2) \<Rightarrow>
                 (case set2 data (asc ''comprovante'') (asc ''data_emissao'') (PStr g1) of
                    Inl e \<Rightarrow> Inl e
                  | Inr data' \<Rightarrow>
                      set2 data' (asc ''comprovante'') (asc ''hora_emissao'') (PStr g2)))
          else Inr data)"

fun scan :: "(nat \<Rightarrow> bool) \<Rightarrow> ustr list \<Rightarrow> (nat \<times> ustr) list \<Rightarrow> pydict \<Rightarrow> exn + pydict" where
  "scan isd lines [] data = Inr data"
| "scan isd lines ((i, line) # rest) data =
     (case step isd lines i line data of
        Inl e \<Rightarrow> Inl e
      | Inr data' \<Rightarrow> scan isd lines rest data')"

text \<open>The dataclass, and \<^verbatim>\<open>CNPJData(**data)\<close>: a \<^verbatim>\<open>TypeError\<close> unless the
  keys are exactly the eight fields.\<close>

record CNPJData =
  cnpj :: pyval
  empresa :: pyval
  atividades :: pyval
  endereco :: pyval
  contato :: pyval
  situacao :: pyval
  comprovante :: pyval
  metadados :: pyval

definition CNPJData_fields :: "ustr list" where
  "CNPJData_fields =
     [asc ''cnpj'', asc ''empresa'', asc ''atividades'', asc ''endereco'', asc ''contato'',
      asc ''situacao'', asc ''comprovante'', asc ''metadados'']"

definition make_CNPJData :: "pydict \<Rightarrow> exn + CNPJData" where
  "make_CNPJData data =
     (if \<not> list_all (\<lambda>k. k \<in> set CNPJData_fields) (map fst data)
      then Inl (TypeError (asc ''unexpected keyword argument''))
      else (case map (map_of data) CNPJData_fields of
              [Some a, Some b, Some c, Some d, Some e, Some f, Some g, Some h] \<Rightarrow>
                Inr \<lparr>cnpj = a, empresa = b, atividades = c, endereco = d, contato = e,
                     situacao = f, comprovante = g, metadados = h\<rparr>
            | _ \<Rightarrow> Inl (TypeError (asc ''missing required argument''))))"

definition extract_lines :: "(nat \<Rightarrow> bool) \<Rightarrow> ustr \<Rightarrow> ustr list \<Rightarrow> exn + CNPJData" where
  "extract_lines isd now lines =
     (case scan isd lines (List.enumerate 0 lines) (initial_data now) of
        Inl e \<Rightarrow> Inl e
      | Inr data \<Rightarrow> make_CNPJData data)"

definition extract_from_text :: "(nat \<Rightarrow> bool) \<Rightarrow> ustr \<Rightarrow> ustr \<Rightarrow> exn + CNPJData" where
  "extract_from_text isd now text = extract_lines isd now (lines_of text)"

subsection \<open>The shape of the record\<close>

text \<open>
  The sections and fields every record has, as a schema: a field holds a string, a
  boolean, a list, or a dict with the given keys in the given order.
\<close>

datatype kind = KStr | KBool | KList kind | KDict "(ustr \<times> kind) list"

fun has_kind :: "kind \<Rightarrow> pyval \<Rightarrow> bool"
  and conforms :: "pydict \<Rightarrow> (ustr \<times> kind) list \<Rightarrow> bool" where
  "has_kind KStr v = (case v of PStr s \<Rightarrow> True | _ \<Rightarrow> False)"
| "has_kind KBool v = (case v of PBool b \<Rightarrow> True | _ \<Rightarrow> False)"
| "has_kind (KList k) v = (case v of PList xs \<Rightarrow> list_all (has_kind k) xs | _ \<Rightarrow> False)"
| "has_kind (KDict spec) v = (case v of PDict d \<Rightarrow> conforms d spec | _ \<Rightarrow> False)"
| "conforms [] [] = True"
| "conforms ((k, v) # d) ((k', kd) # spec) = (k = k' \<and> has_kind kd v \<and> conforms d spec)"
| "conforms [] (x # spec) = False"
| "conforms (y # d) [] = False"

definition K_code_desc :: kind where
  "K_code_desc = KDict [(asc ''codigo'', KStr), (asc ''descricao'', KStr)]"

definition data_schema :: "(ustr \<times> kind) list" where
  "data_schema =
     [(asc ''cnpj'', KDict [(asc ''numero'', KStr), (asc ''tipo'', KStr),
                            (asc ''data_abertura'', KStr)]),
      (asc ''empresa'', KDict [(asc ''razao_social'', KStr), (asc ''nome_fantasia'', KStr),
                               (asc ''porte'', KStr), (asc ''natureza_juridica'', K_code_desc)]),
      (asc ''atividades'', KDict [(asc ''principal'', K_code_desc),
                                  (asc ''secundarias'', KList K_code_desc)]),
      (asc ''endereco'', KDict [(asc ''logradouro'', KStr), (asc ''numero'', KStr),
                                (asc ''complemento'', KStr), (asc ''cep'', KStr),
                                (asc ''bairro'', KStr), (asc ''municipio'', KStr),
                                (asc ''uf'', KStr)]),
      (asc ''contato'', KDict [(asc ''email'', KStr), (asc ''telefone'', KStr)]),
      (asc ''situacao'', KDict [(asc ''cadastral'', KStr), (asc ''data_situacao'', KStr),
                                (asc ''motivo'', KStr), (asc ''situacao_especial'', KStr),
                                (asc ''data_situacao_especial'', KStr)]),
      (asc ''comprovante'', KDict [(asc ''data_emissao'', KStr), (asc ''hora_emissao'', KStr)]),
      (asc ''metadados'', KDict [(asc ''timestamp'', KStr), (asc ''sucesso'', KBool)])]"

text \<open>The kind the schema gives to \<^verbatim>\<open>data[s][f]\<close>, if it has that field.\<close>

definition target_kind :: "ustr \<Rightarrow> ustr \<Rightarrow> kind option" where
  "target_kind s f =
     (case map_of data_schema s of Some (KDict sspec) \<Rightarrow> map_of sspec f | _ \<Rightarrow> None)"

text \<open>The fields a line can make the scan assign, whatever follows it.\<close>

definition targets :: "ustr \<Rightarrow> (ustr \<times> ustr) list" where
  "targets line =
     (case map_of field_map line of
        Some t \<Rightarrow> [t]
      | None \<Rightarrow>
          (if line = L_MATRIZ \<or> line = L_FILIAL then [(asc ''cnpj'', asc ''tipo'')] else [])
          @ (if py_in H_NATUREZA line then [(asc ''empresa'', asc ''natureza_juridica'')] else [])
          @ (if py_in H_PRINCIPAL line then [(asc ''atividades'', asc ''principal'')] else [])
          @ (if py_in H_SECUNDARIAS line then [(asc ''atividades'', asc ''secundarias'')] else [])
          @ (if py_in EMITIDO line
             then [(asc ''comprovante'', asc ''data_emissao''),
                   (asc ''comprovante'', asc ''hora_emissao'')]
             else []))"

text \<open>The fields assigned outside \<^verbatim>\<open>field_map\<close>.\<close>

definition special_targets :: "(ustr \<times> ustr) list" where
  "special_targets = [(asc ''cnpj'', asc ''tipo''), (asc ''empresa'', asc ''natureza_juridica''),
     (asc ''atividades'', asc ''principal''), (asc ''atividades'', asc ''secundarias''),
     (asc ''comprovante'', asc ''data_emissao''), (asc ''comprovante'', asc ''hora_emissao'')]"

text \<open>What one or more iterations may change: the record keeps its shape, and the
  fields outside \<open>ts\<close> and the sections outside \<open>ts\<close> keep their values.\<close>

definition step_post :: "(ustr \<times> ustr) list \<Rightarrow> pydict \<Rightarrow> pydict \<Rightarrow> bool" where
  "step_post ts data data' =
     (conforms data' data_schema
      \<and> (\<forall>s f. (s, f) \<notin> set ts \<longrightarrow> get2 data' s f = get2 data s f)
      \<and> (\<forall>s. s \<notin> fst ` set ts \<longrightarrow> map_of data' s = map_of data s))"

text \<open>The record with its \<^verbatim>\<open>metadados\<close> replaced, and whether it has that section.\<close>

definition with_meta :: "pyval \<Rightarrow> pydict \<Rightarrow> pydict" where
  "with_meta m data = setitem data (asc ''metadados'') m"

definition has_meta :: "pydict \<Rightarrow> bool" where
  "has_meta data = (asc ''metadados'' \<in> fst ` set data)"

text \<open>
  The secondary activities as the specification words them: the lines after the header
  are taken while each has the form code, separator, description and holds no boundary
  marker; each gives one entry, split at the first separator.
\<close>

definition consumable :: "ustr \<Rightarrow> bool" where
  "consumable l = (py_in SEP l \<and> \<not> py_in STOP_NATUREZA l \<and> \<not> py_in L_LOGRADOURO l)"

definition entry_of :: "ustr \<Rightarrow> pyval" where
  "entry_of l = (case split_at_first SEP l of
                   Some (codigo, desc) \<Rightarrow> code_desc codigo desc
                 | None \<Rightarrow> PNone)"

definition spec_secundarias :: "ustr list \<Rightarrow> pyval list" where
  "spec_secundarias ls = map entry_of (takeWhile consumable ls)"

section \<open>SolveCaptchaClient: waiting for the solution\<close>

text \<open>
  What one \<^verbatim>\<open>GET /res.php\<close> followed by \<^verbatim>\<open>response.json()\<close> gives: a value, or
  an exception (network failure, timeout of the request, invalid JSON).
\<close>

datatype 'a outcome = Raises exn | Returns 'a

text \<open>\<^verbatim>\<open>x == 1\<close> holds for the number one and for \<^verbatim>\<open>True\<close>.\<close>

definition py_eq_1 :: "pyval \<Rightarrow> bool" where
  "py_eq_1 v = (v = PNum 1 \<or> v = PBool True)"

definition CAPCHA_NOT_READY :: ustr where
  "CAPCHA_NOT_READY = asc ''CAPCHA_NOT_READY''"

text \<open>
  The body of the \<^verbatim>\<open>try\<close> of one iteration, up to the point where the loop
  returns, breaks, or goes on: \<open>Solved\<close> is the \<^verbatim>\<open>return result['request']\<close>,
  \<open>Terminal\<close> the \<^verbatim>\<open>break\<close>, \<open>NotReady\<close> the fall through to
  \<^verbatim>\<open>sleep(3)\<close>, and \<open>Errored\<close> the \<^verbatim>\<open>except\<close> branch with its
  \<^verbatim>\<open>sleep(5)\<close>.
\<close>

datatype verdict = Solved pyval | Terminal | NotReady | Errored

definition classify :: "pyval outcome \<Rightarrow> verdict" where
  "classify r =
     (case r of
        Raises e \<Rightarrow> Errored
      | Returns result \<Rightarrow>
          (case py_get result (asc ''status'') PNone of
             Inl e \<Rightarrow> Errored
           | Inr st \<Rightarrow>
               if py_eq_1 st then
                 (case as_dict result of
                    Inl e \<Rightarrow> Errored
                  | Inr d \<Rightarrow> (case getitem d (asc ''request'') of
                                Inl e \<Rightarrow> Errored
                              | Inr tok \<Rightarrow> Solved tok))
               else
                 (case py_get result (asc ''request'') PNone of
                    Inl e \<Rightarrow> Errored
                  | Inr rq \<Rightarrow> if rq \<noteq> PStr CAPCHA_NOT_READY then Terminal else NotReady)))"

text \<open>
  The service and the clock. \<open>poll captcha_id k\<close> is the answer to the \<open>k\<close>-th request;
  \<open>lag k\<close> is the time the \<open>k\<close>-th iteration takes beyond its nominal sleep (the
  request itself, scheduling). \<^verbatim>\<open>time.time()\<close> is the argument \<open>clock\<close>.
\<close>

record solver_env =
  poll :: "ustr \<Rightarrow> nat \<Rightarrow> pyval outcome"
  lag :: "nat \<Rightarrow> real"

datatype wevent = Poll nat | WSleep real

text \<open>
  The \<^verbatim>\<open>while\<close> loop. Whether it ends depends on the clock, so it is a partial
  function: \<open>None\<close> is a run that never returns, \<open>Some (v, tr)\<close> a run that returns
  \<open>v\<close> (\<open>PNone\<close> for \<^verbatim>\<open>None\<close>) after the effects \<open>tr\<close>.
\<close>

partial_function (option) wait_loop ::
  "solver_env \<Rightarrow> ustr \<Rightarrow> real \<Rightarrow> real \<Rightarrow> nat \<Rightarrow> real \<Rightarrow> wevent list
     \<Rightarrow> (pyval \<times> wevent list) option" where
  "wait_loop env captcha_id timeout start_time k clock tr =
     (if clock - start_time < timeout then
        (case classify (poll env captcha_id k) of
           Solved tok \<Rightarrow> Some (tok, tr @ [Poll k])
         | Terminal \<Rightarrow> Some (PNone, tr @ [Poll k])
         | NotReady \<Rightarrow>
             wait_loop env captcha_id timeout start_time (k + 1) (clock + lag env k + 3)
               (tr @ [Poll k, WSleep 3])
         | Errored \<Rightarrow>
             wait_loop env captcha_id timeout start_time (k + 1) (clock + lag env k + 5)
               (tr @ [Poll k, WSleep 5]))
      else Some (PNone, tr))"

definition wait_solution :: "solver_env \<Rightarrow> real \<Rightarrow> real \<Rightarrow> ustr \<Rightarrow> (pyval \<times> wevent list) option" where
  "wait_solution env timeout now captcha_id = wait_loop env captcha_id timeout now 0 now []"

text \<open>No two requests without a sleep between them.\<close>

fun polls_separated :: "wevent list \<Rightarrow> bool" where
  "polls_separated (Poll i # Poll j # tr) = False"
| "polls_separated (e # tr) = polls_separated tr"
| "polls_separated [] = True"

section \<open>CNPJConsultorV2\<close>

text \<open>
  The effects of a consultation, in the order they happen. The browser session, the
  challenge solving and the query submission are collaborators: each is one step whose
  outcome the environment decides.
\<close>

datatype event =
    CacheRead ustr
  | CacheWrite ustr pyval
  | SetupBrowser
  | Goto ustr
  | SolveCaptcha
  | SubmitQuery
  | PageText
  | Extract
  | Cleanup
  | LogInfo
  | LogError nat
  | Sleep nat

record attempt_env =
  setup_browser_out :: "unit outcome"
  goto_out :: "unit outcome"
  solve_captcha_out :: "unit outcome"
  submit_query_out :: "unit outcome"
  inner_text_out :: "ustr outcome"
  strftime_out :: ustr
  page_url :: ustr
  cleanup_out :: "unit outcome"

text \<open>
  The world around one call of \<^verbatim>\<open>consultar\<close>: the Unicode digit table, the cache
  directory (no file, a file that cannot be read or parsed, or the parsed value), the
  clock, and the behaviour of the collaborators in each attempt.
\<close>

record world =
  unicode_digit :: "nat \<Rightarrow> bool"
  cache_file :: "ustr \<Rightarrow> pyval outcome option"
  strptime_mktime :: "ustr \<Rightarrow> real outcome"
  time_time :: real
  attempt_of :: "nat \<Rightarrow> attempt_env"
  error_clock :: ustr

text \<open>\<^verbatim>\<open>_clean_cnpj\<close>: \<^verbatim>\<open>re.sub(r'\D', '', cnpj)\<close> keeps the digits.\<close>

definition clean_cnpj :: "(nat \<Rightarrow> bool) \<Rightarrow> ustr \<Rightarrow> exn + ustr" where
  "clean_cnpj isd raw =
     (let clean = filter isd raw in
      if length clean \<noteq> 14 then Inl (ValueError (asc ''CNPJ inv'' @ [225] @ asc ''lido: '' @ raw))
      else Inr clean)"

text \<open>\<^verbatim>\<open>_get_cache\<close>: every exception inside is swallowed and gives \<^verbatim>\<open>None\<close>.\<close>

definition get_cache :: "world \<Rightarrow> ustr \<Rightarrow> pyval option" where
  "get_cache w c =
     (case cache_file w c of
        None \<Rightarrow> None
      | Some (Raises e) \<Rightarrow> None
      | Some (Returns data) \<Rightarrow>
          (case py_get data (asc ''metadados'') (PDict []) of
             Inl e \<Rightarrow> None
           | Inr m \<Rightarrow>
               (case py_get m (asc ''timestamp'') (PStr []) of
                  Inl e \<Rightarrow> None
                | Inr ts \<Rightarrow>
                    (case ts of
                       PStr s \<Rightarrow>
                         (case strptime_mktime w s of
                            Raises e \<Rightarrow> None
                          | Returns cache_time \<Rightarrow>
                              if time_time w - cache_time < 86400 then Some data else None)
                     | _ \<Rightarrow> None))))"


definition error_response :: "ustr \<Rightarrow> ustr \<Rightarrow> pyval" where
  "error_response error now =
     PDict [(asc ''erro'', PStr error),
            (asc ''metadados'', PDict [(asc ''sucesso'', PBool False),
                                       (asc ''timestamp'', PStr now)])]"

text \<open>\<^verbatim>\<open>dataclasses.asdict\<close>\<close>

definition to_dict :: "CNPJData \<Rightarrow> pydict" where
  "to_dict d =
     [(asc ''cnpj'', cnpj d), (asc ''empresa'', empresa d),
      (asc ''atividades'', atividades d), (asc ''endereco'', endereco d),
      (asc ''contato'', contato d), (asc ''situacao'', situacao d),
      (asc ''comprovante'', comprovante d), (asc ''metadados'', metadados d)]"

definition asdict :: "CNPJData \<Rightarrow> pyval" where
  "asdict d = PDict (to_dict d)"

definition query_url :: "ustr \<Rightarrow> ustr" where
  "query_url c =
     asc ''https://solucoes.receita.fazenda.gov.br/servicos/cnpjreva/Cnpjreva_Solicitacao.asp?cnpj=''
       @ c"

text \<open>The \<^verbatim>\<open>try\<close> block of \<^verbatim>\<open>_perform_consultation\<close>: it stops at the first step
  that raises.\<close>

definition consultation_body ::
  "(nat \<Rightarrow> bool) \<Rightarrow> attempt_env \<Rightarrow> ustr \<Rightarrow> (exn + pyval) \<times> event list" where
  "consultation_body isd a c =
     (case setup_browser_out a of
        Raises e \<Rightarrow> (Inl e, [SetupBrowser])
      | Returns u1 \<Rightarrow>
     (case goto_out a of
        Raises e \<Rightarrow> (Inl e, [SetupBrowser, Goto (query_url c)])
      | Returns u2 \<Rightarrow>
     (case solve_captcha_out a of
        Raises e \<Rightarrow> (Inl e, [SetupBrowser, Goto (query_url c), SolveCaptcha])
      | Returns u3 \<Rightarrow>
     (case submit_query_out a of
        Raises e \<Rightarrow> (Inl e, [SetupBrowser, Goto (query_url c), SolveCaptcha, SubmitQuery])
      | Returns u4 \<Rightarrow>
     (case inner_text_out a of
        Raises e \<Rightarrow>
          (Inl e, [SetupBrowser, Goto (query_url c), SolveCaptcha, SubmitQuery, PageText])
      | Returns text \<Rightarrow>
          (let tr = [SetupBrowser, Goto (query_url c), SolveCaptcha, SubmitQuery, PageText,
                     Extract] in
           case extract_from_text isd (strftime_out a) text of
             Inl e \<Rightarrow> (Inl e, tr)
           | Inr data \<Rightarrow>
               (case as_dict (metadados data) of
                  Inl e \<Rightarrow> (Inl e, tr)
                | Inr m \<Rightarrow>
                    (Inr (asdict (data\<lparr>metadados :=
                            PDict (setitem m (asc ''url_consulta'') (PStr (page_url a)))\<rparr>)),
                     tr))))))))"

text \<open>\<^verbatim>\<open>_perform_consultation\<close>: the \<^verbatim>\<open>finally\<close> clause runs on every path, and
  an exception raised by it replaces the outcome of the body.\<close>

definition perform_consultation ::
  "(nat \<Rightarrow> bool) \<Rightarrow> attempt_env \<Rightarrow> ustr \<Rightarrow> (exn + pyval) \<times> event list" where
  "perform_consultation isd a c =
     (case consultation_body isd a c of
        (r, tr) \<Rightarrow>
          (case cleanup_out a of
             Raises e \<Rightarrow> (Inl e, tr @ [Cleanup])
           | Returns u \<Rightarrow> (r, tr @ [Cleanup])))"

text \<open>The \<^verbatim>\<open>try\<close> block of one iteration of the retry loop.\<close>

definition try_attempt :: "world \<Rightarrow> ustr \<Rightarrow> bool \<Rightarrow> nat \<Rightarrow> (exn + pyval) \<times> event list" where
  "try_attempt w c use_cache attempt =
     (case perform_consultation (unicode_digit w) (attempt_of w attempt) c of
        (Inl e, tr) \<Rightarrow> (Inl e, tr)
      | (Inr result, tr) \<Rightarrow>
          (case py_get result (asc ''metadados'') (PDict []) of
             Inl e \<Rightarrow> (Inl e, tr)
           | Inr m \<Rightarrow>
               (case py_get m (asc ''sucesso'') PNone of
                  Inl e \<Rightarrow> (Inl e, tr)
                | Inr s \<Rightarrow>
                    if truthy s \<and> use_cache then (Inr result, tr @ [CacheWrite c result])
                    else (Inr result, tr))))"

definition max_retries :: nat where
  "max_retries = 3"

text \<open>\<^verbatim>\<open>for attempt in range(max_retries)\<close>, with the effects so far in \<open>tr\<close>.\<close>

function attempt_loop ::
  "world \<Rightarrow> ustr \<Rightarrow> bool \<Rightarrow> nat \<Rightarrow> event list \<Rightarrow> (exn + pyval) \<times> event list" where
  "attempt_loop w c use_cache attempt tr =
     (if attempt < max_retries then
        (case try_attempt w c use_cache attempt of
           (Inr result, tr') \<Rightarrow> (Inr result, tr @ tr')
         | (Inl e, tr') \<Rightarrow>
             if attempt < max_retries - 1
             then attempt_loop w c use_cache (attempt + 1)
                    (tr @ tr' @ [LogError (attempt + 1), Sleep 10])
             else (Inr (error_response (str_of_exn e) (error_clock w)),
                   tr @ tr' @ [LogError (attempt + 1)]))
      else (Inr (error_response (asc ''M'' @ [225] @ asc ''ximo de tentativas excedido'')
                   (error_clock w)), tr))"
  by pat_completeness auto
termination
  by (relation "measure (\<lambda>(w, c, use_cache, attempt, tr). max_retries - attempt)") auto

declare attempt_loop.simps [simp del]

definition consultar :: "world \<Rightarrow> ustr \<Rightarrow> bool \<Rightarrow> (exn + pyval) \<times> event list" where
  "consultar w raw use_cache =
     (case clean_cnpj (unicode_digit w) raw of
        Inl e \<Rightarrow> (Inl e, [])
      | Inr cnpj_clean \<Rightarrow>
          if use_cache then
            (case get_cache w cnpj_clean of
               Some cached \<Rightarrow>
                 if truthy cached then (Inr cached, [CacheRead cnpj_clean, LogInfo])
                 else attempt_loop w cnpj_clean use_cache 0 [CacheRead cnpj_clean]
             | None \<Rightarrow> attempt_loop w cnpj_clean use_cache 0 [CacheRead cnpj_clean])
          else attempt_loop w cnpj_clean use_cache 0 [])"

text \<open>How many times the pipeline was entered: each attempt starts the browser session
  first.\<close>

definition attempts_made :: "event list \<Rightarrow> nat" where
  "attempts_made tr = length (filter (\<lambda>e. e = SetupBrowser) tr)"


section \<open>Example environments\<close>

text \<open>Concrete inputs on which the theorems below are exercised.\<close>

definition ascii_digit :: "nat \<Rightarrow> bool" where
  "ascii_digit c = (48 \<le> c \<and> c \<le> 57)"

definition failing_attempt :: attempt_env where
  "failing_attempt =
     \<lparr>setup_browser_out = Returns (),
      goto_out = Raises (Failure (asc ''Timeout 30000ms exceeded'')),
      solve_captcha_out = Returns (), submit_query_out = Returns (),
      inner_text_out = Returns [], strftime_out = asc ''2024-01-01 00:00:00'',
      page_url = [], cleanup_out = Returns ()\<rparr>"

definition offline_world :: world where
  "offline_world =
     \<lparr>unicode_digit = ascii_digit, cache_file = (\<lambda>c. None),
      strptime_mktime = (\<lambda>s. Raises (ValueError [])), time_time = 1704067200,
      attempt_of = (\<lambda>k. failing_attempt), error_clock = asc ''2024-01-01 00:00:30''\<rparr>"

definition clock0 :: ustr where
  "clock0 = asc ''2024-01-01 00:00:00''"

definition garbled_text :: ustr where
  "garbled_text = asc ''  ??? '' @ [10, 10] @ asc ''x - y''"






definition clock1 :: ustr where
  "clock1 = asc ''2024-01-01 00:00:01''"

definition good_attempt :: attempt_env where
  "good_attempt =
     \<lparr>setup_browser_out = Returns (), goto_out = Returns (),
      solve_captcha_out = Returns (), submit_query_out = Returns (),
      inner_text_out = Returns (L_TELEFONE @ [10] @ asc ''(11) 5555-0000''),
      strftime_out = clock0,
      page_url = asc ''https://solucoes.receita.fazenda.gov.br/servicos/cnpjreva/Cnpjreva_Comprovante.asp'',
      cleanup_out = Returns ()\<rparr>"

definition raw0 :: ustr where
  "raw0 = asc ''38.139.407/0001-77''"

definition id0 :: ustr where
  "id0 = asc ''38139407000177''"

definition cached_record :: pyval where
  "cached_record =
     PDict [(asc ''cnpj'', PDict [(asc ''numero'', PStr raw0), (asc ''tipo'', PStr L_MATRIZ),
                                  (asc ''data_abertura'', PStr [])]),
            (asc ''metadados'', PDict [(asc ''timestamp'', PStr clock0),
                                       (asc ''sucesso'', PBool True)])]"

definition cached_world :: world where
  "cached_world =
     \<lparr>unicode_digit = ascii_digit,
      cache_file = (\<lambda>c. if c = id0 then Some (Returns cached_record) else None),
      strptime_mktime = (\<lambda>s. if s = clock0 then Returns 1704067200
                              else Raises (ValueError (asc ''time data does not match format''))),
      time_time = 1704070800,
      attempt_of = (\<lambda>k. failing_attempt), error_clock = asc ''2024-01-01 01:00:30''\<rparr>"

section \<open>Properties\<close>

subsection \<open>Evaluation of string literals\<close>

lemma asc_Nil: "asc [] = []"
  by (simp add: asc_def)

lemma asc_Cons: "asc (c # cs) = of_char c # asc cs"
  by (simp add: asc_def)

lemma asc_eq_iff [simp]: "asc s = asc t \<longleftrightarrow> s = t"
proof -
  have "inj (of_char :: char \<Rightarrow> nat)"
    by (metis inj_on_inverseI char_of_char)
  then show ?thesis
    unfolding asc_def by (simp add: inj_map_eq_map)
qed

subsection \<open>Dictionaries and the schema\<close>

lemma map_of_setitem: "map_of (setitem d k v) k' = (if k' = k then Some v else map_of d k')"
  by (induction d) auto

lemma conforms_lookup:
  "conforms d spec \<Longrightarrow> map_of spec k = Some kd \<Longrightarrow> \<exists>v. map_of d k = Some v \<and> has_kind kd v"
  by (induction d spec rule: list_induct2') (auto split: if_splits)

lemma conforms_setitem:
  "conforms d spec \<Longrightarrow> map_of spec k = Some kd \<Longrightarrow> has_kind kd v \<Longrightarrow> conforms (setitem d k v) spec"
  by (induction d spec rule: list_induct2') (auto split: if_splits)

lemma conforms_keys: "conforms d spec \<Longrightarrow> map fst d = map fst spec"
  by (induction d spec rule: list_induct2') auto

lemma initial_conforms: "conforms (initial_data now) data_schema"
  by (simp add: initial_data_def data_schema_def K_code_desc_def code_desc_def)

lemma target_kind_section:
  assumes "conforms data data_schema" "target_kind s f = Some kd"
  obtains sspec sd where "map_of data_schema s = Some (KDict sspec)" "map_of sspec f = Some kd"
    "map_of data s = Some (PDict sd)" "conforms sd sspec"
proof -
  from assms(2) obtain sspec where a: "map_of data_schema s = Some (KDict sspec)" "map_of sspec f = Some kd"
    by (auto simp: target_kind_def split: option.splits kind.splits)
  from conforms_lookup [OF assms(1) a(1)] obtain v where v: "map_of data s = Some v" "has_kind (KDict sspec) v"
    by blast
  then obtain sd where "v = PDict sd" "conforms sd sspec"
    by (cases v) auto
  with a v that show thesis by blast
qed

lemma get2_conforms:
  assumes "conforms data data_schema" "target_kind s f = Some kd"
  shows "\<exists>v. get2 data s f = Inr v \<and> has_kind kd v"
proof -
  from assms obtain sspec sd where a: "map_of sspec f = Some kd"
    "map_of data s = Some (PDict sd)" "conforms sd sspec"
    by (rule target_kind_section)
  from conforms_lookup [OF a(3) a(1)] obtain v where "map_of sd f = Some v" "has_kind kd v" by blast
  with a show ?thesis by (simp add: get2_def getitem_def as_dict_def)
qed

lemma set2_conforms:
  assumes "conforms data data_schema" "target_kind s f = Some kd" "has_kind kd v"
  shows "\<exists>data'. set2 data s f v = Inr data' \<and> conforms data' data_schema"
proof -
  from assms(1,2) obtain sspec sd where a: "map_of data_schema s = Some (KDict sspec)" "map_of sspec f = Some kd"
    "map_of data s = Some (PDict sd)" "conforms sd sspec"
    by (rule target_kind_section)
  have "conforms (setitem sd f v) sspec"
    using a(4) a(2) assms(3) by (rule conforms_setitem)
  then have "has_kind (KDict sspec) (PDict (setitem sd f v))" by simp
  with assms(1) a(1) have "conforms (setitem data s (PDict (setitem sd f v))) data_schema"
    by (rule conforms_setitem)
  with a show ?thesis by (simp add: set2_def getitem_def as_dict_def)
qed

lemma set2_InrD:
  assumes "set2 data s f v = Inr data'"
  obtains sd where "map_of data s = Some (PDict sd)"
    "data' = setitem data s (PDict (setitem sd f v))"
proof -
  from assms obtain sv where sv: "map_of data s = Some sv"
    by (cases "map_of data s") (simp_all add: set2_def getitem_def)
  with assms obtain sd where "sv = PDict sd"
    by (cases sv) (simp_all add: set2_def getitem_def as_dict_def)
  with assms sv that show thesis
    by (simp add: set2_def getitem_def as_dict_def)
qed

lemma get2_set2:
  assumes "set2 data s' f' v = Inr data'"
  shows "get2 data' s f = (if s = s' \<and> f = f' then Inr v else get2 data s f)"
proof -
  from assms obtain sd where a: "map_of data s' = Some (PDict sd)"
    "data' = setitem data s' (PDict (setitem sd f' v))"
    by (rule set2_InrD)
  show ?thesis
  proof (cases "s = s'")
    case True
    with a show ?thesis
      by (simp add: get2_def getitem_def as_dict_def map_of_setitem)
  next
    case False
    with a show ?thesis
      by (simp add: get2_def getitem_def map_of_setitem)
  qed
qed

lemma section_set2:
  assumes "set2 data s' f' v = Inr data'" "s \<noteq> s'"
  shows "map_of data' s = map_of data s"
proof -
  from assms(1) obtain sd where a: "map_of data s' = Some (PDict sd)"
    "data' = setitem data s' (PDict (setitem sd f' v))"
    by (rule set2_InrD)
  with assms(2) show ?thesis by (simp add: map_of_setitem)
qed

subsection \<open>Input validation\<close>

text \<open>
  C1. \<^verbatim>\<open>consultar\<close> keeps the digits of its argument; when they are not exactly 14
  it raises \<^verbatim>\<open>ValueError\<close> at once: the result is the exception and the list of
  effects is empty, so no cache read, no browser session, no challenge solving and no
  attempt of the retry loop has happened.
\<close>

theorem consultar_invalid_id:
  "length (filter (unicode_digit w) raw) \<noteq> 14 \<Longrightarrow>
     clean_cnpj (unicode_digit w) raw
       = Inl (ValueError (asc ''CNPJ inv'' @ [225] @ asc ''lido: '' @ raw))
     \<and> consultar w raw use_cache
       = (Inl (ValueError (asc ''CNPJ inv'' @ [225] @ asc ''lido: '' @ raw)), [])"
  by (simp add: consultar_def clean_cnpj_def Let_def)

theorem consultar_invalid_id_witness:
  "length (filter (unicode_digit offline_world) (asc ''12.345'')) \<noteq> 14
   \<and> consultar offline_world (asc ''12.345'') True
       = (Inl (ValueError (asc ''CNPJ inv'' @ [225] @ asc ''lido: '' @ asc ''12.345'')), [])"
  using consultar_invalid_id [of offline_world "asc ''12.345''" True]
  by (simp add: offline_world_def ascii_digit_def asc_Cons asc_Nil)


subsection \<open>The scan keeps the shape of the record\<close>

lemma split_at_first_None: "sep \<noteq> [] \<Longrightarrow> (split_at_first sep s = None) = (\<not> py_in sep s)"
  by (induction s) (auto split: option.splits)

lemma py_in_split:
  assumes "py_in SEP l"
  obtains a b where "split_at_first SEP l = Some (a, b)"
proof -
  have "SEP \<noteq> []" by (simp add: SEP_def asc_Cons)
  with assms have "split_at_first SEP l \<noteq> None"
    by (simp add: split_at_first_None)
  then show thesis using that by (cases "split_at_first SEP l") auto
qed

lemma unpack2_split1:
  "split_at_first SEP l = Some (a, b) \<Longrightarrow> unpack2 (split1 SEP l) = Inr (a, b)"
  by (simp add: split1_def)

lemma has_kind_code_desc: "has_kind K_code_desc (code_desc a b)"
  by (simp add: K_code_desc_def code_desc_def)

lemmas field_keys =
  L_NUMERO_DE_INSCRICAO_def L_DATA_DE_ABERTURA_def L_NOME_EMPRESARIAL_def L_TITULO_def
  L_PORTE_def L_LOGRADOURO_def L_NUMERO_def L_COMPLEMENTO_def L_CEP_def L_BAIRRO_def
  L_MUNICIPIO_def L_UF_def L_TELEFONE_def L_SITUACAO_CADASTRAL_def L_DATA_DA_SITUACAO_def

lemmas other_labels =
  L_MATRIZ_def L_FILIAL_def H_NATUREZA_def H_PRINCIPAL_def H_SECUNDARIAS_def
  STOP_NATUREZA_def EMITIDO_def SEP_def

lemma field_map_kinds:
  "list_all (\<lambda>(l, s, f). target_kind s f = Some KStr) field_map"
  by (simp add: field_map_def target_kind_def data_schema_def)

lemma field_map_target_kind:
  assumes "map_of field_map line = Some (s, f)"
  shows "target_kind s f = Some KStr"
proof -
  from assms have "(line, s, f) \<in> set field_map" by (rule map_of_SomeD)
  with field_map_kinds show ?thesis by (auto simp: list_all_iff)
qed

lemma field_map_distinct_targets: "distinct (map snd field_map)"
  by (simp add: field_map_def)

lemma field_map_distinct_labels: "distinct (map fst field_map)"
  by (simp add: field_map_def field_keys asc_Cons asc_Nil)

lemma field_map_label:
  assumes "(l, t) \<in> set field_map" "map_of field_map line = Some t"
  shows "line = l"
proof -
  from assms(2) have "(line, t) \<in> set field_map" by (rule map_of_SomeD)
  with assms(1) field_map_distinct_targets show ?thesis
    by (metis eq_key_imp_eq_value distinct_map inj_on_def snd_conv fst_conv)
qed

lemma field_map_not_special:
  "list_all (\<lambda>(l, t). t \<notin> set special_targets) field_map"
  by (simp add: field_map_def special_targets_def)



lemma target_kind_secundarias:
  "target_kind (asc ''atividades'') (asc ''secundarias'') = Some (KList K_code_desc)"
  by (simp add: target_kind_def data_schema_def)

lemma append_secundaria_conforms:
  assumes "conforms data data_schema"
  obtains xs data' where
    "get2 data (asc ''atividades'') (asc ''secundarias'') = Inr (PList xs)"
    "append_secundaria data codigo desc = Inr data'"
    "conforms data' data_schema"
    "set2 data (asc ''atividades'') (asc ''secundarias'') (PList (xs @ [code_desc codigo desc]))
       = Inr data'"
proof -
  from get2_conforms [OF assms target_kind_secundarias] obtain v where
    v: "get2 data (asc ''atividades'') (asc ''secundarias'') = Inr v"
       "has_kind (KList K_code_desc) v"
    by blast
  then obtain xs where xs: "v = PList xs" "list_all (has_kind K_code_desc) xs"
    by (cases v) auto
  then have "has_kind (KList K_code_desc) (PList (xs @ [code_desc codigo desc]))"
    by (simp add: has_kind_code_desc)
  from set2_conforms [OF assms target_kind_secundarias this] obtain data' where
    d: "set2 data (asc ''atividades'') (asc ''secundarias'')
          (PList (xs @ [code_desc codigo desc])) = Inr data'"
       "conforms data' data_schema"
    by blast
  with v xs have "append_secundaria data codigo desc = Inr data'"
    by (simp add: append_secundaria_def)
  with v xs d that show thesis by blast
qed

lemma secundarias_loop_conforms:
  "conforms data data_schema \<Longrightarrow>
     \<exists>data'. secundarias_loop lines j data = Inr data' \<and> conforms data' data_schema
       \<and> (\<forall>xs. get2 data (asc ''atividades'') (asc ''secundarias'') = Inr (PList xs) \<longrightarrow>
             get2 data' (asc ''atividades'') (asc ''secundarias'')
               = Inr (PList (xs @ spec_secundarias (drop j lines))))
       \<and> (\<forall>s f. (s, f) \<noteq> (asc ''atividades'', asc ''secundarias'') \<longrightarrow>
             get2 data' s f = get2 data s f)
       \<and> (\<forall>s. s \<noteq> asc ''atividades'' \<longrightarrow> map_of data' s = map_of data s)"
proof (induction lines j data rule: secundarias_loop.induct)
  case (1 lines j data)
  show ?case
  proof (cases "j < length lines \<and> py_in SEP (lines ! j)")
    case False
    then have "spec_secundarias (drop j lines) = []"
      by (cases "j < length lines")
        (auto simp: spec_secundarias_def consumable_def Cons_nth_drop_Suc [symmetric])
    with False "1.prems" show ?thesis
      by (subst secundarias_loop.simps) auto
  next
    case True
    note inside = this
    then have dr: "drop j lines = lines ! j # drop (j + 1) lines"
      by (simp add: Cons_nth_drop_Suc)
    show ?thesis
    proof (cases "py_in STOP_NATUREZA (lines ! j) \<or> py_in L_LOGRADOURO (lines ! j)")
      case True
      then have "spec_secundarias (drop j lines) = []"
        by (auto simp: dr spec_secundarias_def consumable_def)
      with True inside "1.prems" show ?thesis
        by (subst secundarias_loop.simps) auto
    next
      case False
      from inside obtain a b where ab: "split_at_first SEP (lines ! j) = Some (a, b)"
        by (auto elim: py_in_split)
      then have un: "unpack2 (split1 SEP (lines ! j)) = Inr (a, b)"
        by (rule unpack2_split1)
      from "1.prems" obtain xs data1 where
        d1: "get2 data (asc ''atividades'') (asc ''secundarias'') = Inr (PList xs)"
            "append_secundaria data a b = Inr data1"
            "conforms data1 data_schema"
            "set2 data (asc ''atividades'') (asc ''secundarias'') (PList (xs @ [code_desc a b]))
               = Inr data1"
        by (rule append_secundaria_conforms)
      from "1.IH" [OF inside False un refl d1(2) d1(3)] obtain data' where
        ih: "secundarias_loop lines (j + 1) data1 = Inr data'" "conforms data' data_schema"
            "\<And>ys. get2 data1 (asc ''atividades'') (asc ''secundarias'') = Inr (PList ys) \<Longrightarrow>
               get2 data' (asc ''atividades'') (asc ''secundarias'')
                 = Inr (PList (ys @ spec_secundarias (drop (j + 1) lines)))"
            "\<And>s f. (s, f) \<noteq> (asc ''atividades'', asc ''secundarias'') \<Longrightarrow>
               get2 data' s f = get2 data1 s f"
            "\<And>s. s \<noteq> asc ''atividades'' \<Longrightarrow> map_of data' s = map_of data1 s"
        by blast
      have run: "secundarias_loop lines j data = Inr data'"
        using inside False un d1(2) ih(1) by (subst secundarias_loop.simps) simp
      have g1: "get2 data1 (asc ''atividades'') (asc ''secundarias'')
                  = Inr (PList (xs @ [code_desc a b]))"
        by (simp add: get2_set2 [OF d1(4)])
      have sp: "spec_secundarias (drop j lines)
                  = code_desc a b # spec_secundarias (drop (j + 1) lines)"
        using inside False ab by (simp add: dr spec_secundarias_def consumable_def entry_of_def)
      have acc: "get2 data' (asc ''atividades'') (asc ''secundarias'')
                   = Inr (PList (xs @ spec_secundarias (drop j lines)))"
        using ih(3) [OF g1] by (simp add: sp)
      have frame: "get2 data' s f = get2 data s f"
        if "(s, f) \<noteq> (asc ''atividades'', asc ''secundarias'')" for s f
        using that ih(4) [OF that] by (auto simp: get2_set2 [OF d1(4)])
      have sect: "map_of data' s = map_of data s" if "s \<noteq> asc ''atividades''" for s
        using ih(5) [OF that] section_set2 [OF d1(4) that] by simp
      from run ih(2) acc frame sect d1(1) show ?thesis by auto
    qed
  qed
qed


lemma step_post_refl: "conforms data data_schema \<Longrightarrow> step_post ts data data"
  by (simp add: step_post_def)

lemma step_post_mono: "step_post ts d d' \<Longrightarrow> set ts \<subseteq> set us \<Longrightarrow> step_post us d d'"
  unfolding step_post_def by (meson image_mono subsetD)

lemma step_post_trans:
  "step_post ts a b \<Longrightarrow> step_post ts b c \<Longrightarrow> step_post ts a c"
  unfolding step_post_def by metis

lemma write_conforms:
  assumes "conforms data data_schema" "target_kind s0 f0 = Some kd" "has_kind kd v"
  obtains data' where "set2 data s0 f0 v = Inr data'" "step_post [(s0, f0)] data data'"
    "get2 data' s0 f0 = Inr v"
proof -
  from set2_conforms [OF assms] obtain data' where
    d: "set2 data s0 f0 v = Inr data'" "conforms data' data_schema"
    by blast
  have "step_post [(s0, f0)] data data'"
    unfolding step_post_def using d(2) by (auto simp: get2_set2 [OF d(1)] section_set2 [OF d(1)])
  moreover have "get2 data' s0 f0 = Inr v" by (simp add: get2_set2 [OF d(1)])
  ultimately show thesis using d(1) that by blast
qed

lemma set_code_desc_conforms:
  assumes "conforms data data_schema" "target_kind s0 f0 = Some K_code_desc" "py_in SEP nl"
  obtains data' where "set_code_desc data s0 f0 nl = Inr data'"
    "step_post [(s0, f0)] data data'" "get2 data' s0 f0 = Inr (entry_of nl)"
proof -
  from assms(3) obtain a b where ab: "split_at_first SEP nl = Some (a, b)"
    by (rule py_in_split)
  from write_conforms [OF assms(1,2) has_kind_code_desc [of a b]] obtain data' where
    "set2 data s0 f0 (code_desc a b) = Inr data'" "step_post [(s0, f0)] data data'"
    "get2 data' s0 f0 = Inr (code_desc a b)"
    by blast
  with ab that show thesis
    by (simp add: set_code_desc_def unpack2_split1 entry_of_def)
qed

lemma secundarias_loop_post:
  assumes "conforms data data_schema"
  obtains data' where "secundarias_loop lines j data = Inr data'"
    "step_post [(asc ''atividades'', asc ''secundarias'')] data data'"
  using secundarias_loop_conforms [OF assms, of lines j] unfolding step_post_def
  by auto

lemma target_kind_simps:
  "target_kind (asc ''cnpj'') (asc ''tipo'') = Some KStr"
  "target_kind (asc ''empresa'') (asc ''natureza_juridica'') = Some K_code_desc"
  "target_kind (asc ''atividades'') (asc ''principal'') = Some K_code_desc"
  "target_kind (asc ''comprovante'') (asc ''data_emissao'') = Some KStr"
  "target_kind (asc ''comprovante'') (asc ''hora_emissao'') = Some KStr"
  "target_kind (asc ''endereco'') (asc ''numero'') = Some KStr"
  "target_kind (asc ''metadados'') (asc ''timestamp'') = Some KStr"
  "target_kind (asc ''metadados'') (asc ''sucesso'') = Some KBool"
  by (simp_all add: target_kind_def data_schema_def)

lemma step_conforms:
  assumes c: "conforms data data_schema"
  shows "\<exists>data'. step isd lines i line data = Inr data' \<and> step_post (targets line) data data'"
proof (cases "map_of field_map line")
  case (Some t)
  obtain s0 f0 where t: "t = (s0, f0)" by (cases t)
  have tg: "targets line = [(s0, f0)]" using Some t by (simp add: targets_def)
  have tk: "target_kind s0 f0 = Some KStr" using Some t field_map_target_kind by simp
  show ?thesis
  proof (cases "next_line_of lines i \<noteq> [] \<and> map_of field_map (next_line_of lines i) = None")
    case False
    with Some t have "step isd lines i line data = Inr data"
      by (auto simp: step_def Let_def)
    with c show ?thesis by (simp add: step_post_refl)
  next
    case True
    from write_conforms [OF c tk, of "PStr (next_line_of lines i)"] obtain data' where
      w: "set2 data s0 f0 (PStr (next_line_of lines i)) = Inr data'"
         "step_post [(s0, f0)] data data'"
      by auto
    show ?thesis
    proof (cases "s0 = asc ''endereco'' \<and> f0 = asc ''numero''")
      case False
      with Some t True w(1) have "step isd lines i line data = Inr data'"
        by (auto simp: step_def Let_def)
      with w(2) tg show ?thesis by simp
    next
      case en: True
      from get2_conforms [OF c target_kind_simps(6)] obtain cur where
        cur: "get2 data (asc ''endereco'') (asc ''numero'') = Inr cur" by blast
      show ?thesis
      proof (cases "truthy cur")
        case True
        with Some t \<open>next_line_of lines i \<noteq> [] \<and> _\<close> en cur
        have "step isd lines i line data = Inr data"
          by (auto simp: step_def Let_def)
        with c show ?thesis by (simp add: step_post_refl)
      next
        case False
        with Some t \<open>next_line_of lines i \<noteq> [] \<and> _\<close> en cur w(1)
        have "step isd lines i line data = Inr data'"
          by (auto simp: step_def Let_def)
        with w(2) tg show ?thesis by simp
      qed
    qed
  qed
next
  case None
  note fm = this
  show ?thesis
  proof (cases "line = L_MATRIZ")
    case True
    from write_conforms [OF c target_kind_simps(1), of "PStr L_MATRIZ"] obtain data' where
      w: "set2 data (asc ''cnpj'') (asc ''tipo'') (PStr L_MATRIZ) = Inr data'"
         "step_post [(asc ''cnpj'', asc ''tipo'')] data data'"
      by auto
    from fm True w(1) have "step isd lines i line data = Inr data'"
      by (auto simp: step_def Let_def)
    moreover from fm True have "set [(asc ''cnpj'', asc ''tipo'')] \<subseteq> set (targets line)"
      by (simp add: targets_def)
    ultimately show ?thesis using step_post_mono [OF w(2)] by blast
  next
    case nm: False
    show ?thesis
    proof (cases "line = L_FILIAL")
      case True
      from write_conforms [OF c target_kind_simps(1), of "PStr L_FILIAL"] obtain data' where
        w: "set2 data (asc ''cnpj'') (asc ''tipo'') (PStr L_FILIAL) = Inr data'"
           "step_post [(asc ''cnpj'', asc ''tipo'')] data data'"
        by auto
      from fm nm True w(1) have "step isd lines i line data = Inr data'"
        by (auto simp: step_def Let_def)
      moreover from fm True have "set [(asc ''cnpj'', asc ''tipo'')] \<subseteq> set (targets line)"
        by (simp add: targets_def)
      ultimately show ?thesis using step_post_mono [OF w(2)] by blast
    next
      case nf: False
      show ?thesis
      proof (cases "py_in H_NATUREZA line \<and> next_line_of lines i \<noteq> []")
        case True
        show ?thesis
        proof (cases "py_in SEP (next_line_of lines i)")
          case False
          with fm nm nf True have "step isd lines i line data = Inr data"
            by (auto simp: step_def Let_def)
          with c show ?thesis by (simp add: step_post_refl)
        next
          case sep: True
          from set_code_desc_conforms [OF c target_kind_simps(2) sep] obtain data' where
            w: "set_code_desc data (asc ''empresa'') (asc ''natureza_juridica'')
                  (next_line_of lines i) = Inr data'"
               "step_post [(asc ''empresa'', asc ''natureza_juridica'')] data data'"
            by blast
          from fm nm nf True sep w(1) have "step isd lines i line data = Inr data'"
            by (auto simp: step_def Let_def)
          moreover from fm True
          have "set [(asc ''empresa'', asc ''natureza_juridica'')] \<subseteq> set (targets line)"
            by (simp add: targets_def)
          ultimately show ?thesis using step_post_mono [OF w(2)] by blast
        qed
      next
        case nn: False
        show ?thesis
        proof (cases "py_in H_PRINCIPAL line \<and> next_line_of lines i \<noteq> []")
          case True
          show ?thesis
          proof (cases "py_in SEP (next_line_of lines i)")
            case False
            with fm nm nf nn True have "step isd lines i line data = Inr data"
              by (auto simp: step_def Let_def)
            with c show ?thesis by (simp add: step_post_refl)
          next
            case sep: True
            from set_code_desc_conforms [OF c target_kind_simps(3) sep] obtain data' where
              w: "set_code_desc data (asc ''atividades'') (asc ''principal'')
                    (next_line_of lines i) = Inr data'"
                 "step_post [(asc ''atividades'', asc ''principal'')] data data'"
              by blast
            from fm nm nf nn True sep w(1) have "step isd lines i line data = Inr data'"
              by (auto simp: step_def Let_def)
            moreover from fm True
            have "set [(asc ''atividades'', asc ''principal'')] \<subseteq> set (targets line)"
              by (simp add: targets_def)
            ultimately show ?thesis using step_post_mono [OF w(2)] by blast
          qed
        next
          case np: False
          show ?thesis
          proof (cases "py_in H_SECUNDARIAS line")
            case True
            from secundarias_loop_post [OF c, of lines "i + 1"] obtain data' where
              w: "secundarias_loop lines (i + 1) data = Inr data'"
                 "step_post [(asc ''atividades'', asc ''secundarias'')] data data'"
              by blast
            from fm nm nf nn np True w(1) have "step isd lines i line data = Inr data'"
              by (auto simp: step_def Let_def)
            moreover from fm True
            have "set [(asc ''atividades'', asc ''secundarias'')] \<subseteq> set (targets line)"
              by (simp add: targets_def)
            ultimately show ?thesis using step_post_mono [OF w(2)] by blast
          next
            case ns: False
            show ?thesis
            proof (cases "py_in EMITIDO line")
              case False
              with fm nm nf nn np ns have "step isd lines i line data = Inr data"
                by (auto simp: step_def Let_def)
              with c show ?thesis by (simp add: step_post_refl)
            next
              case em: True
              then have sub: "set [(asc ''comprovante'', asc ''data_emissao'')] \<subseteq> set (targets line)"
                "set [(asc ''comprovante'', asc ''hora_emissao'')] \<subseteq> set (targets line)"
                using fm by (simp_all add: targets_def)
              show ?thesis
              proof (cases "re_search isd line")
                case None
                with fm nm nf nn np ns em have "step isd lines i line data = Inr data"
                  by (auto simp: step_def Let_def)
                with c show ?thesis by (simp add: step_post_refl)
              next
                case (Some g)
                obtain g1 g2 where g: "g = (g1, g2)" by (cases g)
                from write_conforms [OF c target_kind_simps(4), of "PStr g1"] obtain d1 where
                  w1: "set2 data (asc ''comprovante'') (asc ''data_emissao'') (PStr g1) = Inr d1"
                      "step_post [(asc ''comprovante'', asc ''data_emissao'')] data d1"
                  by auto
                from w1(2) have c1: "conforms d1 data_schema" by (simp add: step_post_def)
                from write_conforms [OF c1 target_kind_simps(5), of "PStr g2"] obtain d2 where
                  w2: "set2 d1 (asc ''comprovante'') (asc ''hora_emissao'') (PStr g2) = Inr d2"
                      "step_post [(asc ''comprovante'', asc ''hora_emissao'')] d1 d2"
                  by auto
                from fm nm nf nn np ns em Some g w1(1) w2(1)
                have "step isd lines i line data = Inr d2"
                  by (auto simp: step_def Let_def)
                moreover have "step_post (targets line) data d2"
                  using step_post_trans [OF step_post_mono [OF w1(2) sub(1)]
                          step_post_mono [OF w2(2) sub(2)]] .
                ultimately show ?thesis by blast
              qed
            qed
          qed
        qed
      qed
    qed
  qed
qed


lemma targets_special:
  assumes "map_of field_map line = None"
  shows "set (targets line) \<subseteq> set special_targets"
  using assms by (auto simp: targets_def special_targets_def)

lemma field_target_not_special:
  assumes "(l, t) \<in> set field_map"
  shows "t \<notin> set special_targets"
  using field_map_not_special assms by (auto simp: list_all_iff)

lemma field_target_untouched:
  assumes "(l, t) \<in> set field_map" "line \<noteq> l"
  shows "t \<notin> set (targets line)"
proof (cases "map_of field_map line")
  case None
  with targets_special field_target_not_special [OF assms(1)] show ?thesis by blast
next
  case (Some t')
  then have "targets line = [t']" by (simp add: targets_def)
  moreover have "t' \<noteq> t" using field_map_label [OF assms(1)] Some assms(2) by auto
  ultimately show ?thesis by simp
qed


lemma scan_conforms:
  "conforms data data_schema \<Longrightarrow>
     \<exists>data'. scan isd lines rest data = Inr data'
       \<and> step_post (concat (map (\<lambda>(i, line). targets line) rest)) data data'"
proof (induction rest arbitrary: data)
  case Nil
  then show ?case by (simp add: step_post_refl)
next
  case (Cons p rest)
  obtain i line where p: "p = (i, line)" by (cases p)
  from step_conforms [OF Cons.prems, of isd lines i line] obtain d1 where
    d1: "step isd lines i line data = Inr d1" "step_post (targets line) data d1"
    by blast
  then have c1: "conforms d1 data_schema" by (simp add: step_post_def)
  from Cons.IH [OF c1] obtain d2 where
    d2: "scan isd lines rest d1 = Inr d2"
        "step_post (concat (map (\<lambda>(i, line). targets line) rest)) d1 d2"
    by blast
  have "step_post (concat (map (\<lambda>(i, line). targets line) (p # rest))) data d2"
    by (rule step_post_trans [OF step_post_mono [OF d1(2)] step_post_mono [OF d2(2)]])
       (auto simp: p)
  with d1(1) d2(1) p show ?case by simp
qed


lemma make_CNPJData_conforms:
  assumes "conforms data data_schema"
  shows "\<exists>r. make_CNPJData data = Inr r \<and> to_dict r = data"
proof -
  from conforms_keys [OF assms] have "map fst data = CNPJData_fields"
    by (simp add: data_schema_def CNPJData_fields_def)
  then obtain a b c d e f g h where
    "data = [(asc ''cnpj'', a), (asc ''empresa'', b), (asc ''atividades'', c),
             (asc ''endereco'', d), (asc ''contato'', e), (asc ''situacao'', f),
             (asc ''comprovante'', g), (asc ''metadados'', h)]"
    by (auto simp: CNPJData_fields_def map_eq_Cons_conv)
  then show ?thesis
    by (simp add: make_CNPJData_def CNPJData_fields_def to_dict_def)
qed

lemma map_snd_enumerate: "map snd (List.enumerate n xs) = xs"
  by (induction xs arbitrary: n) simp_all

lemma targets_enumerate:
  "concat (map (\<lambda>(i, line). targets line) (List.enumerate n xs)) = concat (map targets xs)"
  by (induction xs arbitrary: n) simp_all

lemma extract_lines_post:
  "\<exists>r. extract_lines isd now lines = Inr r
     \<and> step_post (concat (map targets lines)) (initial_data now) (to_dict r)"
proof -
  from scan_conforms [OF initial_conforms, of isd lines "List.enumerate 0 lines" now]
  obtain data where
    d: "scan isd lines (List.enumerate 0 lines) (initial_data now) = Inr data"
       "step_post (concat (map targets lines)) (initial_data now) data"
    by (auto simp: targets_enumerate)
  then have "conforms data data_schema" by (simp add: step_post_def)
  from make_CNPJData_conforms [OF this] obtain r where
    "make_CNPJData data = Inr r" "to_dict r = data" by blast
  with d show ?thesis by (simp add: extract_lines_def)
qed


subsection \<open>Which lines can assign which fields\<close>

lemma targets_cases:
  assumes "t \<in> set (targets line)"
  shows "map_of field_map line = Some t
     \<or> (map_of field_map line = None
        \<and> ((t = (asc ''cnpj'', asc ''tipo'') \<and> (line = L_MATRIZ \<or> line = L_FILIAL))
           \<or> (t = (asc ''empresa'', asc ''natureza_juridica'') \<and> py_in H_NATUREZA line)
           \<or> (t = (asc ''atividades'', asc ''principal'') \<and> py_in H_PRINCIPAL line)
           \<or> (t = (asc ''atividades'', asc ''secundarias'') \<and> py_in H_SECUNDARIAS line)
           \<or> (t = (asc ''comprovante'', asc ''data_emissao'') \<and> py_in EMITIDO line)
           \<or> (t = (asc ''comprovante'', asc ''hora_emissao'') \<and> py_in EMITIDO line)))"
  using assms by (auto simp: targets_def split: option.splits if_splits)

lemma field_map_defaults:
  "list_all (\<lambda>(l, s, f). get2 (initial_data now) s f = Inr (PStr [])) field_map"
  by (simp add: field_map_def initial_data_def get2_def getitem_def as_dict_def)

lemma initial_values:
  "get2 (initial_data now) (asc ''cnpj'') (asc ''tipo'') = Inr (PStr [])"
  "get2 (initial_data now) (asc ''empresa'') (asc ''natureza_juridica'') = Inr (code_desc [] [])"
  "get2 (initial_data now) (asc ''atividades'') (asc ''principal'') = Inr (code_desc [] [])"
  "get2 (initial_data now) (asc ''atividades'') (asc ''secundarias'') = Inr (PList [])"
  "get2 (initial_data now) (asc ''comprovante'') (asc ''data_emissao'') = Inr (PStr [])"
  "get2 (initial_data now) (asc ''comprovante'') (asc ''hora_emissao'') = Inr (PStr [])"
  "get2 (initial_data now) (asc ''contato'') (asc ''email'') = Inr (PStr [])"
  "get2 (initial_data now) (asc ''situacao'') (asc ''motivo'') = Inr (PStr [])"
  "get2 (initial_data now) (asc ''situacao'') (asc ''situacao_especial'') = Inr (PStr [])"
  "get2 (initial_data now) (asc ''situacao'') (asc ''data_situacao_especial'') = Inr (PStr [])"
  "get2 (initial_data now) (asc ''metadados'') (asc ''timestamp'') = Inr (PStr now)"
  "get2 (initial_data now) (asc ''metadados'') (asc ''sucesso'') = Inr (PBool True)"
  "get2 (initial_data now) (asc ''endereco'') (asc ''numero'') = Inr (PStr [])"
  by (simp_all add: initial_data_def get2_def getitem_def as_dict_def)

lemma special_target_fresh:
  assumes "t \<in> set special_targets" "map_of field_map line = Some t'"
  shows "t \<noteq> t'"
proof -
  from assms(2) have "(line, t') \<in> set field_map" by (rule map_of_SomeD)
  from field_target_not_special [OF this] assms(1) show ?thesis by auto
qed

lemma targets_field_or_special:
  assumes "t \<in> set (targets line)"
  obtains "map_of field_map line = Some t" | "t \<in> set special_targets"
  using targets_cases [OF assms] by (auto simp: special_targets_def)

lemma never_assigned:
  assumes "t \<notin> snd ` set field_map" "t \<notin> set special_targets"
  shows "t \<notin> set (targets line)"
proof
  assume "t \<in> set (targets line)"
  then show False
  proof (cases rule: targets_field_or_special)
    case 1
    then have "(line, t) \<in> set field_map" by (rule map_of_SomeD)
    with assms(1) show False by force
  next
    case 2
    with assms(2) show False by simp
  qed
qed

lemma never_assigned_fields:
  "(asc ''contato'', asc ''email'') \<notin> set (targets line)"
  "(asc ''situacao'', asc ''motivo'') \<notin> set (targets line)"
  "(asc ''situacao'', asc ''situacao_especial'') \<notin> set (targets line)"
  "(asc ''situacao'', asc ''data_situacao_especial'') \<notin> set (targets line)"
  "(asc ''metadados'', asc ''timestamp'') \<notin> set (targets line)"
  "(asc ''metadados'', asc ''sucesso'') \<notin> set (targets line)"
  by (rule never_assigned; simp add: field_map_def special_targets_def)+

lemma special_untouched:
  assumes "t \<in> set special_targets" "t \<in> set (targets line)"
  shows "map_of field_map line = None"
proof (cases "map_of field_map line")
  case (Some t')
  with special_target_fresh [OF assms(1) Some] targets_cases [OF assms(2)] show ?thesis
    by simp
qed simp

lemma extract_frame:
  assumes "extract_lines isd now lines = Inr r"
    and "\<And>line. line \<in> set lines \<Longrightarrow> (s, f) \<notin> set (targets line)"
  shows "get2 (to_dict r) s f = get2 (initial_data now) s f"
proof -
  from extract_lines_post [of isd now lines] assms(1)
  have "step_post (concat (map targets lines)) (initial_data now) (to_dict r)" by auto
  moreover have "(s, f) \<notin> set (concat (map targets lines))"
    using assms(2) by auto
  ultimately show ?thesis unfolding step_post_def by blast
qed

lemma special_target_line:
  assumes "t \<in> set special_targets" "t \<in> set (targets line)"
  shows "(t = (asc ''cnpj'', asc ''tipo'') \<and> (line = L_MATRIZ \<or> line = L_FILIAL))
       \<or> (t = (asc ''empresa'', asc ''natureza_juridica'') \<and> py_in H_NATUREZA line)
       \<or> (t = (asc ''atividades'', asc ''principal'') \<and> py_in H_PRINCIPAL line)
       \<or> (t = (asc ''atividades'', asc ''secundarias'') \<and> py_in H_SECUNDARIAS line)
       \<or> (t = (asc ''comprovante'', asc ''data_emissao'') \<and> py_in EMITIDO line)
       \<or> (t = (asc ''comprovante'', asc ''hora_emissao'') \<and> py_in EMITIDO line)"
  using targets_cases [OF assms(2)] special_untouched [OF assms] by simp

lemma special_target_lines:
  "(asc ''cnpj'', asc ''tipo'') \<in> set (targets line) \<Longrightarrow> line = L_MATRIZ \<or> line = L_FILIAL"
  "(asc ''empresa'', asc ''natureza_juridica'') \<in> set (targets line) \<Longrightarrow> py_in H_NATUREZA line"
  "(asc ''atividades'', asc ''principal'') \<in> set (targets line) \<Longrightarrow> py_in H_PRINCIPAL line"
  "(asc ''atividades'', asc ''secundarias'') \<in> set (targets line) \<Longrightarrow> py_in H_SECUNDARIAS line"
  "(asc ''comprovante'', asc ''data_emissao'') \<in> set (targets line) \<Longrightarrow> py_in EMITIDO line"
  "(asc ''comprovante'', asc ''hora_emissao'') \<in> set (targets line) \<Longrightarrow> py_in EMITIDO line"
  by (drule special_target_line [rotated]; simp add: special_targets_def)+

lemma lines_of_garbled: "lines_of garbled_text = [asc ''???'', asc ''x - y'']"
  by (simp add: garbled_text_def lines_of_def strip_def py_isspace_def asc_Cons asc_Nil)

subsection \<open>The extractor always returns a complete record\<close>

text \<open>
  C7. For every input text, \<^verbatim>\<open>extract_from_text\<close> returns a record and raises
  nothing; the record has every section and every field of the schema, each holding a
  value of its kind; and a field whose label (or header, or marker) occurs on no line of
  the text holds the value it was initialised with: the empty string, the pair of empty
  code and description, or the empty list. The fields \<^verbatim>\<open>email\<close>,
  \<^verbatim>\<open>motivo\<close>, \<^verbatim>\<open>situacao_especial\<close> and
  \<^verbatim>\<open>data_situacao_especial\<close> are never assigned at all.
\<close>

theorem extract_never_raises:
  "\<exists>r. extract_from_text isd now text = Inr r
     \<and> has_kind (KDict data_schema) (asdict r)
     \<and> (\<forall>l s f. (l, s, f) \<in> set field_map \<longrightarrow> l \<notin> set (lines_of text) \<longrightarrow>
           get2 (to_dict r) s f = Inr (PStr []))
     \<and> (L_MATRIZ \<notin> set (lines_of text) \<longrightarrow> L_FILIAL \<notin> set (lines_of text) \<longrightarrow>
           get2 (to_dict r) (asc ''cnpj'') (asc ''tipo'') = Inr (PStr []))
     \<and> ((\<forall>l \<in> set (lines_of text). \<not> py_in H_NATUREZA l) \<longrightarrow>
           get2 (to_dict r) (asc ''empresa'') (asc ''natureza_juridica'') = Inr (code_desc [] []))
     \<and> ((\<forall>l \<in> set (lines_of text). \<not> py_in H_PRINCIPAL l) \<longrightarrow>
           get2 (to_dict r) (asc ''atividades'') (asc ''principal'') = Inr (code_desc [] []))
     \<and> ((\<forall>l \<in> set (lines_of text). \<not> py_in H_SECUNDARIAS l) \<longrightarrow>
           get2 (to_dict r) (asc ''atividades'') (asc ''secundarias'') = Inr (PList []))
     \<and> ((\<forall>l \<in> set (lines_of text). \<not> py_in EMITIDO l) \<longrightarrow>
           get2 (to_dict r) (asc ''comprovante'') (asc ''data_emissao'') = Inr (PStr [])
           \<and> get2 (to_dict r) (asc ''comprovante'') (asc ''hora_emissao'') = Inr (PStr []))
     \<and> get2 (to_dict r) (asc ''contato'') (asc ''email'') = Inr (PStr [])
     \<and> get2 (to_dict r) (asc ''situacao'') (asc ''motivo'') = Inr (PStr [])
     \<and> get2 (to_dict r) (asc ''situacao'') (asc ''situacao_especial'') = Inr (PStr [])
     \<and> get2 (to_dict r) (asc ''situacao'') (asc ''data_situacao_especial'') = Inr (PStr [])"
proof -
  let ?ls = "lines_of text"
  from extract_lines_post [of isd now ?ls] obtain r where
    r: "extract_lines isd now ?ls = Inr r"
       "step_post (concat (map targets ?ls)) (initial_data now) (to_dict r)"
    by blast
  note fr = extract_frame [OF r(1)]
  have run: "extract_from_text isd now text = Inr r"
    using r(1) by (simp add: extract_from_text_def)
  have shape: "has_kind (KDict data_schema) (asdict r)"
    using r(2) by (simp add: step_post_def asdict_def)
  have fields: "get2 (to_dict r) s f = Inr (PStr [])"
    if fm: "(l, s, f) \<in> set field_map" and nl: "l \<notin> set ?ls" for l s f
  proof -
    have "(s, f) \<notin> set (targets line)" if "line \<in> set ?ls" for line
    proof -
      from that nl have "line \<noteq> l" by auto
      with fm show ?thesis by (rule field_target_untouched)
    qed
    then have "get2 (to_dict r) s f = get2 (initial_data now) s f" by (rule fr)
    also have "\<dots> = Inr (PStr [])"
      using field_map_defaults [of now] fm by (auto simp: list_all_iff)
    finally show ?thesis .
  qed
  have tipo: "get2 (to_dict r) (asc ''cnpj'') (asc ''tipo'') = Inr (PStr [])"
    if "L_MATRIZ \<notin> set ?ls" "L_FILIAL \<notin> set ?ls"
  proof -
    have "(asc ''cnpj'', asc ''tipo'') \<notin> set (targets line)" if "line \<in> set ?ls" for line
      using special_target_lines(1) [of line] that \<open>L_MATRIZ \<notin> set ?ls\<close> \<open>L_FILIAL \<notin> set ?ls\<close>
      by auto
    then show ?thesis by (simp add: fr initial_values)
  qed
  have nat: "get2 (to_dict r) (asc ''empresa'') (asc ''natureza_juridica'') = Inr (code_desc [] [])"
    if "\<forall>l \<in> set ?ls. \<not> py_in H_NATUREZA l"
  proof -
    have "(asc ''empresa'', asc ''natureza_juridica'') \<notin> set (targets line)"
      if "line \<in> set ?ls" for line
      using special_target_lines(2) [of line] that \<open>\<forall>l \<in> set ?ls. \<not> py_in H_NATUREZA l\<close>
      by auto
    then show ?thesis by (simp add: fr initial_values)
  qed
  have pri: "get2 (to_dict r) (asc ''atividades'') (asc ''principal'') = Inr (code_desc [] [])"
    if "\<forall>l \<in> set ?ls. \<not> py_in H_PRINCIPAL l"
  proof -
    have "(asc ''atividades'', asc ''principal'') \<notin> set (targets line)"
      if "line \<in> set ?ls" for line
      using special_target_lines(3) [of line] that \<open>\<forall>l \<in> set ?ls. \<not> py_in H_PRINCIPAL l\<close>
      by auto
    then show ?thesis by (simp add: fr initial_values)
  qed
  have sec: "get2 (to_dict r) (asc ''atividades'') (asc ''secundarias'') = Inr (PList [])"
    if "\<forall>l \<in> set ?ls. \<not> py_in H_SECUNDARIAS l"
  proof -
    have "(asc ''atividades'', asc ''secundarias'') \<notin> set (targets line)"
      if "line \<in> set ?ls" for line
      using special_target_lines(4) [of line] that \<open>\<forall>l \<in> set ?ls. \<not> py_in H_SECUNDARIAS l\<close>
      by auto
    then show ?thesis by (simp add: fr initial_values)
  qed
  have emi: "get2 (to_dict r) (asc ''comprovante'') (asc ''data_emissao'') = Inr (PStr [])
      \<and> get2 (to_dict r) (asc ''comprovante'') (asc ''hora_emissao'') = Inr (PStr [])"
    if "\<forall>l \<in> set ?ls. \<not> py_in EMITIDO l"
  proof -
    have "(asc ''comprovante'', asc ''data_emissao'') \<notin> set (targets line)"
      "(asc ''comprovante'', asc ''hora_emissao'') \<notin> set (targets line)"
      if "line \<in> set ?ls" for line
      using special_target_lines(5,6) [of line] that \<open>\<forall>l \<in> set ?ls. \<not> py_in EMITIDO l\<close>
      by auto
    then show ?thesis by (simp add: fr initial_values)
  qed
  have never:
    "get2 (to_dict r) (asc ''contato'') (asc ''email'') = Inr (PStr [])"
    "get2 (to_dict r) (asc ''situacao'') (asc ''motivo'') = Inr (PStr [])"
    "get2 (to_dict r) (asc ''situacao'') (asc ''situacao_especial'') = Inr (PStr [])"
    "get2 (to_dict r) (asc ''situacao'') (asc ''data_situacao_especial'') = Inr (PStr [])"
    by (simp_all add: fr never_assigned_fields initial_values)
  show ?thesis
  proof (intro exI [of _ r] conjI allI impI)
    show "extract_from_text isd now text = Inr r" by (rule run)
    show "has_kind (KDict data_schema) (asdict r)" by (rule shape)
  qed (simp_all add: fields tipo nat pri sec emi never)
qed


lemmas label_defs =
  L_NUMERO_DE_INSCRICAO_def L_DATA_DE_ABERTURA_def L_NOME_EMPRESARIAL_def L_TITULO_def
  L_PORTE_def L_LOGRADOURO_def L_NUMERO_def L_COMPLEMENTO_def L_CEP_def L_BAIRRO_def
  L_MUNICIPIO_def L_UF_def L_TELEFONE_def L_SITUACAO_CADASTRAL_def L_DATA_DA_SITUACAO_def
  L_MATRIZ_def L_FILIAL_def H_NATUREZA_def H_PRINCIPAL_def H_SECUNDARIAS_def
  STOP_NATUREZA_def EMITIDO_def SEP_def

theorem extract_never_raises_witness:
  "\<exists>r. extract_from_text ascii_digit clock0 garbled_text = Inr r
     \<and> has_kind (KDict data_schema) (asdict r)
     \<and> get2 (to_dict r) (asc ''contato'') (asc ''telefone'') = Inr (PStr [])
     \<and> get2 (to_dict r) (asc ''cnpj'') (asc ''tipo'') = Inr (PStr [])
     \<and> get2 (to_dict r) (asc ''empresa'') (asc ''natureza_juridica'') = Inr (code_desc [] [])
     \<and> get2 (to_dict r) (asc ''atividades'') (asc ''principal'') = Inr (code_desc [] [])
     \<and> get2 (to_dict r) (asc ''atividades'') (asc ''secundarias'') = Inr (PList [])
     \<and> get2 (to_dict r) (asc ''comprovante'') (asc ''data_emissao'') = Inr (PStr [])
     \<and> get2 (to_dict r) (asc ''comprovante'') (asc ''hora_emissao'') = Inr (PStr [])"
proof -
  have tel: "(L_TELEFONE, asc ''contato'', asc ''telefone'') \<in> set field_map"
    by (simp add: field_map_def)
  have absent: "L_TELEFONE \<notin> set (lines_of garbled_text)"
    "L_MATRIZ \<notin> set (lines_of garbled_text)" "L_FILIAL \<notin> set (lines_of garbled_text)"
    by (simp_all add: lines_of_garbled label_defs asc_Cons asc_Nil)
  have nohdr: "\<forall>l \<in> set (lines_of garbled_text). \<not> py_in H_NATUREZA l"
    "\<forall>l \<in> set (lines_of garbled_text). \<not> py_in H_PRINCIPAL l"
    "\<forall>l \<in> set (lines_of garbled_text). \<not> py_in H_SECUNDARIAS l"
    "\<forall>l \<in> set (lines_of garbled_text). \<not> py_in EMITIDO l"
    by (simp_all add: lines_of_garbled label_defs asc_Cons asc_Nil)
  from extract_never_raises [of ascii_digit clock0 garbled_text] tel absent nohdr
  show ?thesis by blast
qed

subsection \<open>A masked telephone number\<close>

text \<open>
  C3. The claim is that a value line made of asterisks never reaches
  \<^verbatim>\<open>contato.telefone\<close>. \<^verbatim>\<open>extract_from_text\<close> has no such check: on the
  two lines \<^verbatim>\<open>TELEFONE\<close> and \<^verbatim>\<open>********\<close> it copies the asterisks into the
  field, for every digit table and clock reading.
\<close>

theorem extract_phone_asterisks:
  "\<exists>r. extract_from_text isd now (asc ''TELEFONE'' @ [10] @ asc ''********'') = Inr r
     \<and> get2 (to_dict r) (asc ''contato'') (asc ''telefone'') = Inr (PStr (asc ''********''))"
proof -
  have ls: "lines_of (asc ''TELEFONE'' @ [10] @ asc ''********'')
              = [L_TELEFONE, asc ''********'']"
    by (simp add: lines_of_def strip_def py_isspace_def L_TELEFONE_def asc_Cons asc_Nil)
  have fm: "map_of field_map L_TELEFONE = Some (asc ''contato'', asc ''telefone'')"
    "map_of field_map (asc ''********'') = None"
    by (simp_all add: field_map_def label_defs asc_Cons asc_Nil)
  note c0 = initial_conforms [of now]
  have tk: "target_kind (asc ''contato'') (asc ''telefone'') = Some KStr"
    by (rule field_map_target_kind [OF fm(1)])
  from write_conforms [OF c0 tk, of "PStr (asc ''********'')"] obtain d1 where
    d1: "set2 (initial_data now) (asc ''contato'') (asc ''telefone'') (PStr (asc ''********''))
           = Inr d1"
        "step_post [(asc ''contato'', asc ''telefone'')] (initial_data now) d1"
        "get2 d1 (asc ''contato'') (asc ''telefone'') = Inr (PStr (asc ''********''))"
    by auto
  have s1: "step isd [L_TELEFONE, asc ''********''] 0 L_TELEFONE (initial_data now) = Inr d1"
    using fm d1(1) by (simp add: step_def next_line_of_def Let_def asc_Cons)
  from d1(2) have c1: "conforms d1 data_schema" by (simp add: step_post_def)
  from step_conforms [OF c1, of isd "[L_TELEFONE, asc ''********'']" 1 "asc ''********''"]
  obtain d2 where
    d2: "step isd [L_TELEFONE, asc ''********''] 1 (asc ''********'') d1 = Inr d2"
        "step_post (targets (asc ''********'')) d1 d2"
    by blast
  have "targets (asc ''********'') = []"
    using fm(2) by (simp add: targets_def label_defs asc_Cons asc_Nil)
  with d2(2) d1(3) have g2: "get2 d2 (asc ''contato'') (asc ''telefone'') = Inr (PStr (asc ''********''))"
    by (simp add: step_post_def)
  from d2(2) have "conforms d2 data_schema" by (simp add: step_post_def)
  from make_CNPJData_conforms [OF this] obtain r where
    r: "make_CNPJData d2 = Inr r" "to_dict r = d2" by blast
  have "extract_lines isd now [L_TELEFONE, asc ''********''] = Inr r"
    using s1 d2(1) r(1) by (simp add: extract_lines_def)
  with ls g2 r(2) show ?thesis by (auto simp: extract_from_text_def)
qed


subsection \<open>Headers and markers\<close>











lemma scan_frame:
  assumes "conforms data data_schema" "scan isd lines rest data = Inr data'"
    and "\<And>i line. (i, line) \<in> set rest \<Longrightarrow> (s, f) \<notin> set (targets line)"
  shows "get2 data' s f = get2 data s f"
proof -
  from scan_conforms [OF assms(1), of isd lines rest] assms(2)
  have "step_post (concat (map (\<lambda>(i, line). targets line) rest)) data data'" by auto
  moreover have "(s, f) \<notin> set (concat (map (\<lambda>(i, line). targets line) rest))"
    using assms(3) by auto
  ultimately show ?thesis unfolding step_post_def by blast
qed

subsection \<open>Secondary activities\<close>




subsection \<open>How labels are matched\<close>





subsection \<open>The clock reading in the record\<close>

lemma setitem_commute:
  "k \<noteq> k' \<Longrightarrow> k \<in> fst ` set d \<Longrightarrow>
     setitem (setitem d k v) k' v' = setitem (setitem d k' v') k v"
proof (induction d)
  case Nil
  then show ?case by simp
next
  case (Cons p d)
  obtain a b where p: "p = (a, b)" by (cases p)
  show ?case
  proof (cases "a = k \<or> a = k'")
    case True
    with Cons.prems(1) p show ?thesis by auto
  next
    case False
    with Cons.prems(2) p have "k \<in> fst ` set d" by auto
    from Cons.IH [OF Cons.prems(1) this] False p show ?thesis by simp
  qed
qed

lemma keys_setitem: "fst ` set (setitem d k v) = insert k (fst ` set d)"
proof (induction d)
  case Nil
  then show ?case by simp
next
  case (Cons p d)
  obtain a b where p: "p = (a, b)" by (cases p)
  with Cons.IH show ?case by (cases "a = k") auto
qed

lemma conforms_has_meta: "conforms data data_schema \<Longrightarrow> has_meta data"
proof -
  assume "conforms data data_schema"
  then have "map fst data = map fst data_schema" by (rule conforms_keys)
  then have "fst ` set data = set (map fst data_schema)" by (metis set_map)
  then show ?thesis by (simp add: has_meta_def data_schema_def)
qed

lemma has_meta_with_meta: "has_meta (with_meta m data)"
  by (simp add: has_meta_def with_meta_def keys_setitem)

lemma get2_with_meta:
  "s \<noteq> asc ''metadados'' \<Longrightarrow> get2 (with_meta m data) s f = get2 data s f"
  by (simp add: get2_def getitem_def with_meta_def map_of_setitem)

lemma set2_with_meta:
  assumes "s \<noteq> asc ''metadados''" "has_meta data"
  shows "set2 (with_meta m data) s f v = map_sum id (with_meta m) (set2 data s f v)"
proof -
  have g: "getitem (with_meta m data) s = getitem data s"
    using assms(1) by (simp add: getitem_def with_meta_def map_of_setitem)
  have c: "setitem (with_meta m data) s x = with_meta m (setitem data s x)" for x
    unfolding with_meta_def using assms by (simp add: setitem_commute has_meta_def)
  show ?thesis
    by (simp add: set2_def g c split: sum.splits)
qed

lemma set2_has_meta:
  assumes "set2 data s f v = Inr data'" "has_meta data"
  shows "has_meta data'"
proof -
  from assms(1) obtain sd where "data' = setitem data s (PDict (setitem sd f v))"
    by (rule set2_InrD)
  with assms(2) show ?thesis by (simp add: has_meta_def keys_setitem)
qed

lemma append_secundaria_with_meta:
  assumes "has_meta data"
  shows "append_secundaria (with_meta m data) codigo desc
    = map_sum id (with_meta m) (append_secundaria data codigo desc)"
  using assms
  by (simp add: append_secundaria_def get2_with_meta set2_with_meta
      split: sum.splits pyval.splits)

lemma append_secundaria_has_meta:
  assumes "append_secundaria data codigo desc = Inr data'" "has_meta data"
  shows "has_meta data'"
  using assms
  by (auto simp: append_secundaria_def split: sum.splits pyval.splits dest: set2_has_meta)

lemma secundarias_loop_with_meta:
  "has_meta data \<Longrightarrow>
     secundarias_loop lines j (with_meta m data)
       = map_sum id (with_meta m) (secundarias_loop lines j data)"
proof (induction lines j data rule: secundarias_loop.induct)
  case (1 lines j data)
  show ?case
  proof (cases "j < length lines \<and> py_in SEP (lines ! j)
      \<and> \<not> (py_in STOP_NATUREZA (lines ! j) \<or> py_in L_LOGRADOURO (lines ! j))")
    case False
    then show ?thesis
      by (subst (1 2) secundarias_loop.simps) auto
  next
    case True
    show ?thesis
    proof (cases "unpack2 (split1 SEP (lines ! j))")
      case (Inl e)
      with True show ?thesis by (subst (1 2) secundarias_loop.simps) simp
    next
      case (Inr p)
      obtain a b where p: "p = (a, b)" by (cases p)
      show ?thesis
      proof (cases "append_secundaria data a b")
        case (Inl e)
        with True Inr p "1.prems" show ?thesis
          by (subst (1 2) secundarias_loop.simps) (simp add: append_secundaria_with_meta id_def)
      next
        case d1: (Inr data1)
        have hm: "has_meta data1" using d1 "1.prems" by (rule append_secundaria_has_meta)
        from True have t1: "j < length lines \<and> py_in SEP (lines ! j)"
          and t2: "\<not> (py_in STOP_NATUREZA (lines ! j) \<or> py_in L_LOGRADOURO (lines ! j))"
          by auto
        note ih = "1.IH" [OF t1 t2 Inr p [symmetric] d1 hm]
        from True Inr p d1 "1.prems" ih show ?thesis
          by (subst (1 2) secundarias_loop.simps) (simp add: append_secundaria_with_meta id_def)
      qed
    qed
  qed
qed


lemma set_code_desc_with_meta:
  assumes "s \<noteq> asc ''metadados''" "has_meta data"
  shows "set_code_desc (with_meta m data) s f nl
    = map_sum id (with_meta m) (set_code_desc data s f nl)"
  using assms by (simp add: set_code_desc_def set2_with_meta split: sum.splits prod.splits)

lemma field_map_sections:
  "list_all (\<lambda>(l, s, f). s \<noteq> asc ''metadados'') field_map"
  by (simp add: field_map_def)

lemma field_map_section:
  assumes "map_of field_map line = Some (s, f)"
  shows "s \<noteq> asc ''metadados''"
proof -
  from assms have "(line, s, f) \<in> set field_map" by (rule map_of_SomeD)
  with field_map_sections show ?thesis by (auto simp: list_all_iff)
qed

lemma step_with_meta:
  assumes c: "conforms data data_schema"
  shows "step isd lines i line (with_meta m data)
    = map_sum id (with_meta m) (step isd lines i line data)"
proof -
  note hm = conforms_has_meta [OF c]
  show ?thesis
  proof (cases "map_of field_map line")
    case (Some t)
    obtain s f where t: "t = (s, f)" by (cases t)
    from Some t have sm: "s \<noteq> asc ''metadados''" by (simp add: field_map_section)
    from Some t sm hm show ?thesis
      by (simp add: step_def Let_def get2_with_meta set2_with_meta split: sum.splits)
  next
    case None
    show ?thesis
    proof (cases "re_search isd line")
      case rs: None
      with None hm show ?thesis
        by (auto simp: step_def Let_def set2_with_meta set_code_desc_with_meta
            secundarias_loop_with_meta)
    next
      case (Some g)
      obtain g1 g2 where g: "g = (g1, g2)" by (cases g)
      have two: "(case set2 (with_meta m data) (asc ''comprovante'') (asc ''data_emissao'') (PStr g1) of
           Inl e \<Rightarrow> Inl e
         | Inr data' \<Rightarrow> set2 data' (asc ''comprovante'') (asc ''hora_emissao'') (PStr g2))
        = map_sum id (with_meta m)
           (case set2 data (asc ''comprovante'') (asc ''data_emissao'') (PStr g1) of
              Inl e \<Rightarrow> Inl e
            | Inr data' \<Rightarrow> set2 data' (asc ''comprovante'') (asc ''hora_emissao'') (PStr g2))"
      proof (cases "set2 data (asc ''comprovante'') (asc ''data_emissao'') (PStr g1)")
        case (Inl e)
        with hm show ?thesis by (simp add: set2_with_meta)
      next
        case (Inr d1)
        then have "has_meta d1" using hm by (rule set2_has_meta)
        with Inr hm show ?thesis by (simp add: set2_with_meta)
      qed
      from None hm Some g two show ?thesis
        by (auto simp: step_def Let_def set2_with_meta set_code_desc_with_meta
            secundarias_loop_with_meta)
    qed
  qed
qed

lemma scan_with_meta:
  "conforms data data_schema \<Longrightarrow>
     scan isd lines rest (with_meta m data) = map_sum id (with_meta m) (scan isd lines rest data)"
proof (induction rest arbitrary: data)
  case Nil
  then show ?case by simp
next
  case (Cons p rest)
  obtain i line where p: "p = (i, line)" by (cases p)
  from step_conforms [OF Cons.prems, of isd lines i line] obtain d1 where
    d1: "step isd lines i line data = Inr d1" "step_post (targets line) data d1"
    by blast
  then have c1: "conforms d1 data_schema" by (simp add: step_post_def)
  from Cons.IH [OF c1] d1(1) p show ?case
    by (simp add: step_with_meta [OF Cons.prems])
qed

lemma make_CNPJData_with_meta:
  assumes "conforms data data_schema"
  shows "make_CNPJData (with_meta m data)
    = map_sum id (\<lambda>r. r\<lparr>metadados := m\<rparr>) (make_CNPJData data)"
proof -
  from conforms_keys [OF assms] have "map fst data = CNPJData_fields"
    by (simp add: data_schema_def CNPJData_fields_def)
  then obtain a b c d e f g h where
    "data = [(asc ''cnpj'', a), (asc ''empresa'', b), (asc ''atividades'', c),
             (asc ''endereco'', d), (asc ''contato'', e), (asc ''situacao'', f),
             (asc ''comprovante'', g), (asc ''metadados'', h)]"
    by (auto simp: CNPJData_fields_def map_eq_Cons_conv)
  then show ?thesis
    by (simp add: make_CNPJData_def CNPJData_fields_def with_meta_def)
qed

lemma initial_with_meta:
  "initial_data now' = with_meta (PDict [(asc ''timestamp'', PStr now'),
      (asc ''sucesso'', PBool True)]) (initial_data now)"
  by (simp add: initial_data_def with_meta_def)

lemma extract_lines_clock:
  "extract_lines isd now' lines
     = map_sum id (\<lambda>r. r\<lparr>metadados := PDict [(asc ''timestamp'', PStr now'),
                                              (asc ''sucesso'', PBool True)]\<rparr>)
         (extract_lines isd now lines)"
proof -
  let ?m = "PDict [(asc ''timestamp'', PStr now'), (asc ''sucesso'', PBool True)]"
  from scan_conforms [OF initial_conforms, of isd lines "List.enumerate 0 lines" now]
  obtain data where
    d: "scan isd lines (List.enumerate 0 lines) (initial_data now) = Inr data"
       "conforms data data_schema"
    by (auto simp: step_post_def)
  have "scan isd lines (List.enumerate 0 lines) (initial_data now') = Inr (with_meta ?m data)"
    using d(1) by (simp add: initial_with_meta [of now' now] scan_with_meta [OF initial_conforms])
  with d show ?thesis
    by (simp add: extract_lines_def make_CNPJData_with_meta)
qed

lemma extract_lines_metadados:
  assumes "extract_lines isd now lines = Inr r"
  shows "metadados r = PDict [(asc ''timestamp'', PStr now), (asc ''sucesso'', PBool True)]"
proof -
  from extract_lines_clock [of isd now lines now] assms
  have "r = r\<lparr>metadados := PDict [(asc ''timestamp'', PStr now),
                                  (asc ''sucesso'', PBool True)]\<rparr>"
    by simp
  then have "metadados r = metadados (r\<lparr>metadados := PDict [(asc ''timestamp'', PStr now),
                                  (asc ''sucesso'', PBool True)]\<rparr>)"
    by (rule arg_cong)
  also have "\<dots> = PDict [(asc ''timestamp'', PStr now), (asc ''sucesso'', PBool True)]"
    by simp
  finally show ?thesis .
qed

lemma lines_of_Nil: "lines_of [] = []"
  by (simp add: lines_of_def strip_def)

lemma extract_empty:
  "extract_from_text isd now [] =
     Inr \<lparr>cnpj = PDict [(asc ''numero'', PStr []), (asc ''tipo'', PStr []),
                         (asc ''data_abertura'', PStr [])],
          empresa = PDict [(asc ''razao_social'', PStr []), (asc ''nome_fantasia'', PStr []),
                           (asc ''porte'', PStr []), (asc ''natureza_juridica'', code_desc [] [])],
          atividades = PDict [(asc ''principal'', code_desc [] []),
                              (asc ''secundarias'', PList [])],
          endereco = PDict [(asc ''logradouro'', PStr []), (asc ''numero'', PStr []),
                            (asc ''complemento'', PStr []), (asc ''cep'', PStr []),
                            (asc ''bairro'', PStr []), (asc ''municipio'', PStr []),
                            (asc ''uf'', PStr [])],
          contato = PDict [(asc ''email'', PStr []), (asc ''telefone'', PStr [])],
          situacao = PDict [(asc ''cadastral'', PStr []), (asc ''data_situacao'', PStr []),
                            (asc ''motivo'', PStr []), (asc ''situacao_especial'', PStr []),
                            (asc ''data_situacao_especial'', PStr [])],
          comprovante = PDict [(asc ''data_emissao'', PStr []),
                               (asc ''hora_emissao'', PStr [])],
          metadados = PDict [(asc ''timestamp'', PStr now), (asc ''sucesso'', PBool True)]\<rparr>"
  by (simp add: extract_from_text_def lines_of_Nil extract_lines_def make_CNPJData_def
      CNPJData_fields_def initial_data_def)

text \<open>
  C4. The claim is that two calls on the same text return identical records, every
  field of \<^verbatim>\<open>metadados\<close> included. The record carries the clock reading of the
  call, so two calls one second apart differ, already on the empty text.
\<close>

theorem extract_clock_counterexample:
  "extract_from_text ascii_digit clock0 [] \<noteq> extract_from_text ascii_digit clock1 []"
  by (simp add: extract_empty clock0_def clock1_def)

text \<open>
  C4, as the code has it: for every text and any two clock readings both calls return a
  record, and the second record is the first one with \<^verbatim>\<open>metadados\<close> replaced by
  the second reading and \<^verbatim>\<open>sucesso = True\<close>; the first holds the first reading and
  \<^verbatim>\<open>sucesso = True\<close>. So the two records agree on every field but
  \<^verbatim>\<open>metadados.timestamp\<close>.
\<close>

theorem extract_up_to_clock:
  "\<exists>r1 r2. extract_from_text isd now1 text = Inr r1 \<and> extract_from_text isd now2 text = Inr r2
     \<and> r2 = r1\<lparr>metadados := PDict [(asc ''timestamp'', PStr now2),
                                     (asc ''sucesso'', PBool True)]\<rparr>
     \<and> metadados r1 = PDict [(asc ''timestamp'', PStr now1), (asc ''sucesso'', PBool True)]"
proof -
  from extract_lines_post [of isd now1 "lines_of text"] obtain r1 where
    r1: "extract_lines isd now1 (lines_of text) = Inr r1" by blast
  have "extract_lines isd now2 (lines_of text)
      = Inr (r1\<lparr>metadados := PDict [(asc ''timestamp'', PStr now2),
                                     (asc ''sucesso'', PBool True)]\<rparr>)"
    using r1 by (simp add: extract_lines_clock [of isd now2 "lines_of text" now1])
  with r1 extract_lines_metadados [OF r1] show ?thesis
    by (simp add: extract_from_text_def)
qed

subsection \<open>Who sets the success flag\<close>

text \<open>
  C5. The claim is that the extractor never sets \<^verbatim>\<open>metadados.sucesso\<close>. It does:
  the record it returns for the empty text already holds \<^verbatim>\<open>sucesso = True\<close>.
\<close>

theorem extract_sets_sucesso_example:
  "\<exists>r. extract_from_text ascii_digit clock0 [] = Inr r
     \<and> py_get (metadados r) (asc ''sucesso'') PNone = Inr (PBool True)"
  by (simp add: extract_empty py_get_def)

lemma perform_consultation_InrD:
  assumes "perform_consultation isd a c = (Inr result, tr)"
  obtains page data m where "inner_text_out a = Returns page"
    "extract_from_text isd (strftime_out a) page = Inr data"
    "as_dict (metadados data) = Inr m"
    "result = asdict (data\<lparr>metadados :=
        PDict (setitem m (asc ''url_consulta'') (PStr (page_url a)))\<rparr>)"
proof -
  from assms have body: "fst (consultation_body isd a c) = Inr result"
    by (auto simp: perform_consultation_def split: prod.splits outcome.splits)
  then obtain page where t: "inner_text_out a = Returns page"
    by (cases "inner_text_out a")
      (auto simp: consultation_body_def split: outcome.splits)
  with body obtain data where d: "extract_from_text isd (strftime_out a) page = Inr data"
    by (cases "extract_from_text isd (strftime_out a) page")
      (auto simp: consultation_body_def Let_def split: outcome.splits)
  with body t obtain m where m: "as_dict (metadados data) = Inr m"
    by (cases "as_dict (metadados data)")
      (auto simp: consultation_body_def Let_def split: outcome.splits)
  with body t d have "result = asdict (data\<lparr>metadados :=
        PDict (setitem m (asc ''url_consulta'') (PStr (page_url a)))\<rparr>)"
    by (auto simp: consultation_body_def Let_def split: outcome.splits)
  with t d m that show thesis by blast
qed

text \<open>
  C5, as the code has it: for every text the extractor returns a record whose
  \<^verbatim>\<open>metadados\<close> are the clock reading and \<^verbatim>\<open>sucesso = True\<close>, however much of
  the record it filled; a consultation attempt that returns passes that value on
  unchanged and only adds \<^verbatim>\<open>url_consulta\<close>; \<^verbatim>\<open>sucesso = False\<close> appears only in
  the failure record the coordinator builds itself.
\<close>

theorem extractor_sets_sucesso:
  "(\<exists>r. extract_from_text isd now text = Inr r
      \<and> metadados r = PDict [(asc ''timestamp'', PStr now), (asc ''sucesso'', PBool True)])
   \<and> (perform_consultation isd a c = (Inr result, tr) \<longrightarrow>
        py_get result (asc ''metadados'') PNone
          = Inr (PDict [(asc ''timestamp'', PStr (strftime_out a)),
                        (asc ''sucesso'', PBool True),
                        (asc ''url_consulta'', PStr (page_url a))]))
   \<and> py_get (error_response msg t) (asc ''metadados'') PNone
        = Inr (PDict [(asc ''sucesso'', PBool False), (asc ''timestamp'', PStr t)])"
proof (intro conjI impI)
  from extract_lines_post [of isd now "lines_of text"] obtain r where
    r: "extract_lines isd now (lines_of text) = Inr r" by blast
  with extract_lines_metadados [OF r]
  show "\<exists>r. extract_from_text isd now text = Inr r
      \<and> metadados r = PDict [(asc ''timestamp'', PStr now), (asc ''sucesso'', PBool True)]"
    by (simp add: extract_from_text_def)
next
  assume "perform_consultation isd a c = (Inr result, tr)"
  then obtain page data m where
    d: "extract_from_text isd (strftime_out a) page = Inr data"
       "as_dict (metadados data) = Inr m"
       "result = asdict (data\<lparr>metadados :=
          PDict (setitem m (asc ''url_consulta'') (PStr (page_url a)))\<rparr>)"
    by (rule perform_consultation_InrD)
  from d(1) have "metadados data
      = PDict [(asc ''timestamp'', PStr (strftime_out a)), (asc ''sucesso'', PBool True)]"
    by (simp add: extract_from_text_def extract_lines_metadados)
  with d(2,3) show "py_get result (asc ''metadados'') PNone
          = Inr (PDict [(asc ''timestamp'', PStr (strftime_out a)),
                        (asc ''sucesso'', PBool True),
                        (asc ''url_consulta'', PStr (page_url a))])"
    by (auto simp: as_dict_def asdict_def to_dict_def py_get_def)
next
  show "py_get (error_response msg t) (asc ''metadados'') PNone
        = Inr (PDict [(asc ''sucesso'', PBool False), (asc ''timestamp'', PStr t)])"
    by (simp add: error_response_def py_get_def)
qed

lemma perform_consultation_good:
  "\<exists>result tr. perform_consultation isd good_attempt c = (Inr result, tr)"
proof -
  from extract_lines_post [of isd clock0 "lines_of (L_TELEFONE @ [10] @ asc ''(11) 5555-0000'')"]
  obtain r where
    r: "extract_lines isd clock0 (lines_of (L_TELEFONE @ [10] @ asc ''(11) 5555-0000'')) = Inr r"
    by blast
  from extract_lines_metadados [OF r] r show ?thesis
    by (simp add: perform_consultation_def consultation_body_def good_attempt_def
        extract_from_text_def as_dict_def Let_def)
qed

theorem extractor_sets_sucesso_witness:
  "\<exists>result tr. perform_consultation ascii_digit good_attempt (asc ''38139407000177'')
       = (Inr result, tr)
     \<and> py_get result (asc ''metadados'') PNone
          = Inr (PDict [(asc ''timestamp'', PStr (strftime_out good_attempt)),
                        (asc ''sucesso'', PBool True),
                        (asc ''url_consulta'', PStr (page_url good_attempt))])"
proof -
  from perform_consultation_good [of ascii_digit "asc ''38139407000177''"] obtain result tr
    where p: "perform_consultation ascii_digit good_attempt (asc ''38139407000177'')
       = (Inr result, tr)"
    by blast
  with extractor_sets_sucesso [of ascii_digit _ _ good_attempt "asc ''38139407000177''" result tr]
  show ?thesis by blast
qed


lemma clean_raw0: "clean_cnpj ascii_digit raw0 = Inr id0"
  by (simp add: clean_cnpj_def raw0_def id0_def ascii_digit_def asc_Cons asc_Nil Let_def)

subsection \<open>The cache\<close>

text \<open>
  C8. When the identifier normalises to \<open>c\<close>, the cache holds a readable entry for
  \<open>c\<close> whose \<^verbatim>\<open>metadados.timestamp\<close> parses to a time less than 24 hours before
  now, and the cache is in use, \<^verbatim>\<open>consultar\<close> returns that entry as stored; its
  only effects are the read of the cache and a log line: no browser session, no
  challenge solving, no extraction, no attempt of the retry loop.
\<close>

theorem cache_hit_returns_entry:
  assumes "clean_cnpj (unicode_digit w) raw = Inr c"
    and "cache_file w c = Some (Returns (PDict d))"
    and "map_of d (asc ''metadados'') = Some (PDict md)"
    and "map_of md (asc ''timestamp'') = Some (PStr ts)"
    and "strptime_mktime w ts = Returns stored"
    and "time_time w - stored < 86400"
  shows "consultar w raw True = (Inr (PDict d), [CacheRead c, LogInfo])
     \<and> attempts_made (snd (consultar w raw True)) = 0"
proof -
  have "get_cache w c = Some (PDict d)"
    using assms(2-6) by (simp add: get_cache_def py_get_def)
  moreover from assms(3) have "d \<noteq> []" by auto
  ultimately have "consultar w raw True = (Inr (PDict d), [CacheRead c, LogInfo])"
    using assms(1) by (simp add: consultar_def)
  then show ?thesis by (simp add: attempts_made_def)
qed

theorem cache_hit_returns_entry_witness:
  "clean_cnpj (unicode_digit cached_world) raw0 = Inr id0
   \<and> cache_file cached_world id0 = Some (Returns cached_record)
   \<and> time_time cached_world - 1704067200 < 86400
   \<and> consultar cached_world raw0 True = (Inr cached_record, [CacheRead id0, LogInfo])"
proof -
  have a: "clean_cnpj (unicode_digit cached_world) raw0 = Inr id0"
    by (simp add: cached_world_def clean_raw0)
  have b: "cache_file cached_world id0 = Some (Returns cached_record)"
    by (simp add: cached_world_def)
  have c: "strptime_mktime cached_world clock0 = Returns 1704067200"
    "time_time cached_world - 1704067200 < 86400"
    by (simp_all add: cached_world_def)
  from cache_hit_returns_entry [OF a b [unfolded cached_record_def] _ _ c] a b c(2)
  show ?thesis by (simp add: cached_record_def)
qed


subsection \<open>The retry loop\<close>

lemma attempts_made_append: "attempts_made (xs @ ys) = attempts_made xs + attempts_made ys"
  by (simp add: attempts_made_def)

lemma consultation_body_attempt:
  "attempts_made (snd (consultation_body isd a c)) = 1"
  by (simp add: consultation_body_def attempts_made_def Let_def
      split: outcome.splits sum.splits)

lemma perform_consultation_attempt:
  "attempts_made (snd (perform_consultation isd a c)) = 1"
  using consultation_body_attempt [of isd a c]
  by (auto simp: perform_consultation_def attempts_made_def
      split: prod.splits outcome.splits)


lemma perform_consultation_metadados:
  assumes "perform_consultation isd a c = (Inr result, tr)"
  shows "py_get result (asc ''metadados'') (PDict [])
       = Inr (PDict [(asc ''timestamp'', PStr (strftime_out a)),
                     (asc ''sucesso'', PBool True),
                     (asc ''url_consulta'', PStr (page_url a))])"
proof -
  from assms obtain page data m where
    d: "extract_from_text isd (strftime_out a) page = Inr data"
       "as_dict (metadados data) = Inr m"
       "result = asdict (data\<lparr>metadados :=
          PDict (setitem m (asc ''url_consulta'') (PStr (page_url a)))\<rparr>)"
    by (rule perform_consultation_InrD)
  from d(1) have "metadados data
      = PDict [(asc ''timestamp'', PStr (strftime_out a)), (asc ''sucesso'', PBool True)]"
    by (simp add: extract_from_text_def extract_lines_metadados)
  with d(2,3) show ?thesis
    by (auto simp: as_dict_def asdict_def to_dict_def py_get_def)
qed

lemma try_attempt_total:
  "\<exists>r tr. try_attempt w c use_cache k = (r, tr) \<and> attempts_made tr = 1"
proof (cases "perform_consultation (unicode_digit w) (attempt_of w k) c")
  case (Pair r tr)
  from perform_consultation_attempt [of "unicode_digit w" "attempt_of w k" c] Pair
  have one: "attempts_made tr = 1" by simp
  show ?thesis
  proof (cases r)
    case (Inl e)
    with Pair one show ?thesis by (simp add: try_attempt_def)
  next
    case (Inr result)
    with Pair perform_consultation_metadados [of "unicode_digit w" "attempt_of w k" c result tr]
      one
    show ?thesis
      by (simp add: try_attempt_def py_get_def attempts_made_append)
        (simp add: attempts_made_def)
  qed
qed









end
